theory Spec2Isabelle
  imports Complex_Main
begin

section \<open>Strings\<close>

text \<open>
  A JavaScript string is a sequence of UTF-16 code units. The parser of
  \<^verbatim>\<open>src/components/mcq-parser.tsx\<close> looks at single code units only
  (ASCII punctuation, letters and digits, white space, and the two marker glyphs, both in the
  basic plane), so a string is modelled as the list of its code units.
\<close>

type_synonym jsstring = "nat list"

definition utf16 :: "string \<Rightarrow> jsstring" where
  \<comment> \<open>the code units of an ASCII literal\<close>
  "utf16 s = map of_char s"

abbreviation CHECK_MARK :: nat where
  \<comment> \<open>U+2705, the marker glyph of the JSON and structured formats\<close>
  "CHECK_MARK \<equiv> 9989"

abbreviation TICK :: nat where
  \<comment> \<open>U+2713, the second emphasis marker of the line-pattern format\<close>
  "TICK \<equiv> 10003"

definition is_space :: "nat \<Rightarrow> bool" where
  \<comment> \<open>the class \<^verbatim>\<open>\s\<close>, which is also what \<^verbatim>\<open>trim()\<close> strips: WhiteSpace and LineTerminator\<close>
  "is_space c = (c = 9 \<or> c = 10 \<or> c = 11 \<or> c = 12 \<or> c = 13 \<or> c = 32 \<or> c = 160 \<or> c = 5760
     \<or> (8192 \<le> c \<and> c \<le> 8202) \<or> c = 8232 \<or> c = 8233 \<or> c = 8239 \<or> c = 8287
     \<or> c = 12288 \<or> c = 65279)"

definition is_line_terminator :: "nat \<Rightarrow> bool" where
  \<comment> \<open>what \<^verbatim>\<open>.\<close> does not match\<close>
  "is_line_terminator c = (c = 10 \<or> c = 13 \<or> c = 8232 \<or> c = 8233)"

definition is_digit :: "nat \<Rightarrow> bool" where
  "is_digit c = (48 \<le> c \<and> c \<le> 57)"

definition is_word :: "nat \<Rightarrow> bool" where
  \<comment> \<open>the class \<^verbatim>\<open>\w\<close> (no unicode flag)\<close>
  "is_word c = ((65 \<le> c \<and> c \<le> 90) \<or> (97 \<le> c \<and> c \<le> 122) \<or> is_digit c \<or> c = 95)"

definition is_AD :: "nat \<Rightarrow> bool" where
  \<comment> \<open>the class \<^verbatim>\<open>[A-Da-d]\<close>\<close>
  "is_AD c = ((65 \<le> c \<and> c \<le> 68) \<or> (97 \<le> c \<and> c \<le> 100))"

definition is_dash :: "nat \<Rightarrow> bool" where
  "is_dash c = (c = 45)"

definition is_dot :: "nat \<Rightarrow> bool" where
  "is_dot c = (c = 46)"

definition is_dot_or_paren :: "nat \<Rightarrow> bool" where
  \<comment> \<open>the class \<^verbatim>\<open>[.)]\<close>\<close>
  "is_dot_or_paren c = (c = 46 \<or> c = 41)"

definition upper_cu :: "nat \<Rightarrow> nat" where
  "upper_cu c = (if 97 \<le> c \<and> c \<le> 122 then c - 32 else c)"

definition lower_cu :: "nat \<Rightarrow> nat" where
  "lower_cu c = (if 65 \<le> c \<and> c \<le> 90 then c + 32 else c)"

definition is_ascii :: "jsstring \<Rightarrow> bool" where
  "is_ascii s = list_all (\<lambda>c. c < 128) s"

text \<open>
  \<^verbatim>\<open>String.prototype.toLowerCase\<close> applies the Unicode case mapping, which is a table of
  the platform and no part of the source. On a string of ASCII code units the mapping folds
  the letters A to Z and nothing else, and this is written out. For every other string the
  result is read from the parameter \<open>tbl\<close>: the function that gives, for a string, the
  result of the built-in method. Every function below that lowers a string takes this table
  as its first argument, and what is proved about them holds for every table.
\<close>

definition toLowerCase :: "(jsstring \<Rightarrow> jsstring) \<Rightarrow> jsstring \<Rightarrow> jsstring" where
  "toLowerCase tbl s = (if is_ascii s then map lower_cu s else tbl s)"

definition trim :: "jsstring \<Rightarrow> jsstring" where
  "trim s = rev (dropWhile is_space (rev (dropWhile is_space s)))"

fun startsWith :: "jsstring \<Rightarrow> jsstring \<Rightarrow> bool" where
  "startsWith s [] = True"
| "startsWith [] (p # ps) = False"
| "startsWith (c # cs) (p # ps) = (c = p \<and> startsWith cs ps)"

fun includes_str :: "jsstring \<Rightarrow> jsstring \<Rightarrow> bool" where
  \<comment> \<open>\<^verbatim>\<open>s.includes(needle)\<close>\<close>
  "includes_str [] needle = (needle = [])"
| "includes_str (c # cs) needle = (startsWith (c # cs) needle \<or> includes_str cs needle)"

definition remove_glyph :: "jsstring \<Rightarrow> jsstring" where
  \<comment> \<open>\<^verbatim>\<open>s.replace(/\<checkmark>/g, "")\<close> with the check mark U+2705\<close>
  "remove_glyph s = filter (\<lambda>c. c \<noteq> CHECK_MARK) s"

fun remove_bold :: "jsstring \<Rightarrow> jsstring" where
  \<comment> \<open>\<^verbatim>\<open>s.replace(/\*\*/g, "")\<close>: the pairs of stars, from the left\<close>
  "remove_bold [] = []"
| "remove_bold [c] = [c]"
| "remove_bold (c # d # cs) =
     (if c = 42 \<and> d = 42 then remove_bold cs else c # remove_bold (d # cs))"

fun split_nl :: "jsstring \<Rightarrow> jsstring \<Rightarrow> jsstring list" where
  \<comment> \<open>\<^verbatim>\<open>s.split("\n")\<close>; the first argument is the piece being read, reversed\<close>
  "split_nl acc [] = [rev acc]"
| "split_nl acc (c # cs) = (if c = 10 then rev acc # split_nl [] cs else split_nl (c # acc) cs)"

fun show_nat :: "nat \<Rightarrow> jsstring" where
  \<comment> \<open>a non-negative integer in a template literal: its decimal digits\<close>
  "show_nat n = (if n < 10 then [48 + n] else show_nat (n div 10) @ [48 + n mod 10])"

declare show_nat.simps [simp del]

fun findIndex :: "('a \<Rightarrow> bool) \<Rightarrow> 'a list \<Rightarrow> nat option" where
  \<comment> \<open>\<^verbatim>\<open>xs.findIndex(p)\<close>, with \<open>None\<close> for -1\<close>
  "findIndex p [] = None"
| "findIndex p (x # xs) = (if p x then Some 0 else map_option Suc (findIndex p xs))"


section \<open>Regular expressions\<close>

text \<open>
  Each regular expression of the source is written with the combinators below. A matcher
  takes the continuation that matches the rest of the pattern: a greedy quantifier first
  tries to take one more code unit and falls back to the continuation, a lazy one the other
  way round, an alternation tries the left branch first. This is the backtracking order of
  the JavaScript matcher.
\<close>

fun lit :: "jsstring \<Rightarrow> (jsstring \<Rightarrow> 'a option) \<Rightarrow> jsstring \<Rightarrow> 'a option" where
  "lit [] k s = k s"
| "lit (p # ps) k [] = None"
| "lit (p # ps) k (c # cs) = (if c = p then lit ps k cs else None)"

fun lit_ci :: "jsstring \<Rightarrow> (jsstring \<Rightarrow> 'a option) \<Rightarrow> jsstring \<Rightarrow> 'a option" where
  \<comment> \<open>a literal under the flag \<^verbatim>\<open>i\<close>: both sides are canonicalised to upper case\<close>
  "lit_ci [] k s = k s"
| "lit_ci (p # ps) k [] = None"
| "lit_ci (p # ps) k (c # cs) = (if upper_cu c = upper_cu p then lit_ci ps k cs else None)"

definition one :: "(nat \<Rightarrow> bool) \<Rightarrow> (jsstring \<Rightarrow> 'a option) \<Rightarrow> jsstring \<Rightarrow> 'a option" where
  "one P k s = (case s of [] \<Rightarrow> None | c # cs \<Rightarrow> if P c then k cs else None)"

fun star :: "(nat \<Rightarrow> bool) \<Rightarrow> (jsstring \<Rightarrow> 'a option) \<Rightarrow> jsstring \<Rightarrow> 'a option" where
  "star P k [] = k []"
| "star P k (c # cs) =
     (if P c then (case star P k cs of Some r \<Rightarrow> Some r | None \<Rightarrow> k (c # cs)) else k (c # cs))"

definition plus :: "(nat \<Rightarrow> bool) \<Rightarrow> (jsstring \<Rightarrow> 'a option) \<Rightarrow> jsstring \<Rightarrow> 'a option" where
  "plus P k s = (case s of [] \<Rightarrow> None | c # cs \<Rightarrow> if P c then star P k cs else None)"

definition optional :: "(nat \<Rightarrow> bool) \<Rightarrow> (jsstring \<Rightarrow> 'a option) \<Rightarrow> jsstring \<Rightarrow> 'a option" where
  "optional P k s =
     (case s of [] \<Rightarrow> k []
      | c # cs \<Rightarrow> if P c then (case k cs of Some r \<Rightarrow> Some r | None \<Rightarrow> k (c # cs)) else k (c # cs))"

definition alt ::
  "((jsstring \<Rightarrow> 'a option) \<Rightarrow> jsstring \<Rightarrow> 'a option) \<Rightarrow> ((jsstring \<Rightarrow> 'a option) \<Rightarrow> jsstring \<Rightarrow> 'a option)
     \<Rightarrow> (jsstring \<Rightarrow> 'a option) \<Rightarrow> jsstring \<Rightarrow> 'a option" where
  "alt m1 m2 k s = (case m1 k s of Some r \<Rightarrow> Some r | None \<Rightarrow> m2 k s)"

fun search :: "(jsstring \<Rightarrow> 'a option) \<Rightarrow> jsstring \<Rightarrow> 'a option" where
  \<comment> \<open>an unanchored pattern: the leftmost start position that matches\<close>
  "search m [] = m []"
| "search m (c # cs) = (case m (c # cs) of Some r \<Rightarrow> Some r | None \<Rightarrow> search m cs)"

definition accept :: "jsstring \<Rightarrow> unit option" where
  \<comment> \<open>the continuation of \<^verbatim>\<open>test\<close>: the pattern has ended\<close>
  "accept s = Some ()"

definition dot_plus :: "jsstring \<Rightarrow> jsstring option" where
  \<comment> \<open>the final group \<^verbatim>\<open>(.+)\<close>: the longest run without a line terminator, at least one\<close>
  "dot_plus s =
     (case s of [] \<Rightarrow> None
      | c # cs \<Rightarrow> if is_line_terminator c then None
                 else Some (takeWhile (\<lambda>x. \<not> is_line_terminator x) (c # cs)))"

fun lazy_dot_plus ::
  "(jsstring \<Rightarrow> jsstring \<Rightarrow> 'a option) \<Rightarrow> jsstring \<Rightarrow> jsstring \<Rightarrow> 'a option" where
  \<comment> \<open>the group \<^verbatim>\<open>(.+?)\<close>: the continuation gets the text captured so far\<close>
  "lazy_dot_plus k cap [] = None"
| "lazy_dot_plus k cap (c # cs) =
     (if is_line_terminator c then None
      else (case k (cap @ [c]) cs of Some r \<Rightarrow> Some r | None \<Rightarrow> lazy_dot_plus k (cap @ [c]) cs))"

definition label_re :: "jsstring \<Rightarrow> (jsstring \<Rightarrow> 'a option) \<Rightarrow> jsstring \<Rightarrow> 'a option" where
  \<comment> \<open>\<^verbatim>\<open>/\*\*Name:\*\*|Name:\s*-+/i\<close>\<close>
  "label_re name =
     alt (lit_ci ([42, 42] @ name @ [58, 42, 42]))
         (\<lambda>k. lit_ci (name @ [58]) (star is_space (plus is_dash k)))"

definition label_test :: "jsstring \<Rightarrow> jsstring \<Rightarrow> bool" where
  \<comment> \<open>\<^verbatim>\<open>/\*\*Name:\*\*|Name:\s*-+/i.test(line)\<close>\<close>
  "label_test name line = (search (label_re name accept) line \<noteq> None)"

definition label_match :: "jsstring \<Rightarrow> jsstring \<Rightarrow> jsstring option" where
  \<comment> \<open>group 1 of \<^verbatim>\<open>line.match(/(?:\*\*Name:\*\*|Name:\s*-+)\s*(.+)/i)\<close>\<close>
  "label_match name line = search (label_re name (star is_space dot_plus)) line"

definition emphasized_answer_test :: "jsstring \<Rightarrow> bool" where
  \<comment> \<open>\<^verbatim>\<open>/###\s*\<checkmark>\s*\*\*Correct Answer:\*\*/i.test(line)\<close>\<close>
  "emphasized_answer_test line =
     (search (lit [35, 35, 35] (star is_space (lit [CHECK_MARK] (star is_space
        (lit_ci (utf16 ''**Correct Answer:**'') accept))))) line \<noteq> None)"

definition custom_label :: "jsstring \<Rightarrow> jsstring option" where
  \<comment> \<open>group 1 of \<^verbatim>\<open>line.match(/^(.+?):\s*-+/)\<close>\<close>
  "custom_label line =
     lazy_dot_plus (\<lambda>cap. lit [58] (star is_space (plus is_dash (\<lambda>r. Some cap)))) [] line"

definition numbered_re :: "(jsstring \<Rightarrow> 'a option) \<Rightarrow> jsstring \<Rightarrow> 'a option" where
  \<comment> \<open>\<^verbatim>\<open>/^\d+\.?\s/\<close>\<close>
  "numbered_re k = plus is_digit (optional is_dot (one is_space k))"

definition q_prefixed_re :: "(jsstring \<Rightarrow> 'a option) \<Rightarrow> jsstring \<Rightarrow> 'a option" where
  \<comment> \<open>\<^verbatim>\<open>/^Q\d*\.?\s/i\<close>\<close>
  "q_prefixed_re k = lit_ci [81] (star is_digit (optional is_dot (one is_space k)))"

definition option_re :: "(jsstring \<Rightarrow> 'a option) \<Rightarrow> jsstring \<Rightarrow> 'a option" where
  \<comment> \<open>\<^verbatim>\<open>/^[A-Da-d][.)]\s/\<close>\<close>
  "option_re k = one is_AD (one is_dot_or_paren (one is_space k))"

definition answer_re :: "(jsstring \<Rightarrow> 'a option) \<Rightarrow> jsstring \<Rightarrow> 'a option" where
  \<comment> \<open>\<^verbatim>\<open>/^(Answer|Correct|Ans):\s*[A-Da-d]/i\<close>\<close>
  "answer_re k =
     alt (lit_ci (utf16 ''Answer'')) (alt (lit_ci (utf16 ''Correct'')) (lit_ci (utf16 ''Ans'')))
       (lit [58] (star is_space (one is_AD k)))"

definition explanation_re :: "(jsstring \<Rightarrow> 'a option) \<Rightarrow> jsstring \<Rightarrow> 'a option" where
  \<comment> \<open>\<^verbatim>\<open>/^(Explanation|Reason|Why):/i\<close>\<close>
  "explanation_re k =
     alt (lit_ci (utf16 ''Explanation'')) (alt (lit_ci (utf16 ''Reason'')) (lit_ci (utf16 ''Why'')))
       (lit [58] k)"


section \<open>The question model\<close>

text \<open>
  A decoded JSON value, as \<^verbatim>\<open>JSON.parse\<close> returns it. An object is the list of its own
  properties in the order \<^verbatim>\<open>Object.keys\<close> enumerates them; a key that occurs twice in
  the list counts once, with its first value.
\<close>

datatype json =
  JNull | JBool bool | JNum rat | JStr jsstring | JArr "json list" | JObj "(jsstring \<times> json) list"

datatype error = TypeError

record additional_section =
  title :: jsstring
  content :: jsstring

text \<open>
  The interface \<^verbatim>\<open>MCQQuestion\<close>. The declared type of \<^verbatim>\<open>question\<close> and
  \<^verbatim>\<open>explanation\<close> is string, but the JSON extractor stores the item's properties as
  they are, so both fields hold any JSON value; the text parsers store strings. An absent
  (undefined) field is \<open>None\<close>.
\<close>

record MCQQuestion =
  id_str :: jsstring
  question :: json
  options :: "jsstring list"
  correctAnswer :: nat
  explanation :: "json option"
  additionalSections :: "additional_section list option"

definition truthy :: "json option \<Rightarrow> bool" where
  \<comment> \<open>whether a property value passes a condition; \<open>None\<close> is undefined\<close>
  "truthy v =
     (case v of None \<Rightarrow> False | Some JNull \<Rightarrow> False | Some (JBool b) \<Rightarrow> b
      | Some (JNum n) \<Rightarrow> n \<noteq> 0 | Some (JStr s) \<Rightarrow> s \<noteq> [] | Some (JArr xs) \<Rightarrow> True
      | Some (JObj kvs) \<Rightarrow> True)"

definition get_prop :: "json \<Rightarrow> jsstring \<Rightarrow> error + json option" where
  \<comment> \<open>\<^verbatim>\<open>value.key\<close> for the keys the parser reads, none of which is a property of a
      string, number, boolean or array: reading a property of null throws\<close>
  "get_prop v key =
     (case v of JNull \<Rightarrow> Inl TypeError | JObj kvs \<Rightarrow> Inr (map_of kvs key) | _ \<Rightarrow> Inr None)"

definition isArray :: "json option \<Rightarrow> bool" where
  "isArray v = (case v of Some (JArr xs) \<Rightarrow> True | _ \<Rightarrow> False)"


section \<open>The JSON question extractor\<close>

definition excluded_key :: "jsstring \<Rightarrow> bool" where
  "excluded_key key =
     (key = utf16 ''question'' \<or> key = utf16 ''options'' \<or> key = utf16 ''correct_answer''
      \<or> key = utf16 ''reasoning'' \<or> key = utf16 ''title'')"

fun capitalize_words :: "bool \<Rightarrow> jsstring \<Rightarrow> jsstring" where
  \<comment> \<open>\<^verbatim>\<open>s.replace(/\b\w/g, (l) => l.toUpperCase())\<close>; the flag says whether the
      code unit before is a word character\<close>
  "capitalize_words prev [] = []"
| "capitalize_words prev (c # cs) =
     (if is_word c \<and> \<not> prev then upper_cu c else c) # capitalize_words (is_word c) cs"

definition section_title :: "jsstring \<Rightarrow> jsstring" where
  \<comment> \<open>\<^verbatim>\<open>key.replace(/_/g, " ").replace(/\b\w/g, (l) => l.toUpperCase())\<close>\<close>
  "section_title key = capitalize_words False (map (\<lambda>c. if c = 95 then 32 else c) key)"

fun keys_loop ::
  "(jsstring \<times> json) list \<Rightarrow> additional_section list \<Rightarrow> jsstring list \<Rightarrow> additional_section list" where
  \<comment> \<open>\<^verbatim>\<open>Object.keys(item).forEach(...)\<close>, pushing to \<^verbatim>\<open>additionalSections\<close>\<close>
  "keys_loop kvs secs [] = secs"
| "keys_loop kvs secs (key # keys) =
     keys_loop kvs
       (if \<not> excluded_key key then
          (case map_of kvs key of
             Some (JStr s) \<Rightarrow>
               if trim s \<noteq> [] then secs @ [\<lparr>title = section_title key, content = s\<rparr>] else secs
           | _ \<Rightarrow> secs)
        else secs)
       keys"

fun options_loop ::
  "json list \<Rightarrow> nat \<Rightarrow> nat \<times> jsstring list \<Rightarrow> error + nat \<times> jsstring list" where
  \<comment> \<open>\<^verbatim>\<open>item.options.forEach((option, optIndex) => ...)\<close> on the pair of
      \<^verbatim>\<open>correctAnswer\<close> and \<^verbatim>\<open>cleanOptions\<close>; an option that is not a string
      has no \<^verbatim>\<open>replace\<close> method\<close>
  "options_loop [] optIndex st = Inr st"
| "options_loop (option # rest) optIndex (correct, cleanOptions) =
     (case option of
        JStr s \<Rightarrow>
          options_loop rest (Suc optIndex)
            (if CHECK_MARK \<in> set s then optIndex else correct,
             cleanOptions @ [trim (remove_glyph s)])
      | _ \<Rightarrow> Inl TypeError)"

definition has_glyph_option :: "json list \<Rightarrow> bool" where
  \<comment> \<open>\<^verbatim>\<open>item.options.some((opt) => opt.includes("\<checkmark>"))\<close>, after the loop: every option
      is a string\<close>
  "has_glyph_option opts = (\<exists>v \<in> set opts. case v of JStr s \<Rightarrow> CHECK_MARK \<in> set s | _ \<Rightarrow> False)"

definition json_answer_matches :: "(jsstring \<Rightarrow> jsstring) \<Rightarrow> jsstring \<Rightarrow> jsstring \<Rightarrow> bool" where
  "json_answer_matches tbl correctAnswerText opt =
     (includes_str (toLowerCase tbl opt) correctAnswerText
      \<or> includes_str correctAnswerText (toLowerCase tbl opt))"

definition resolve_correct_answer ::
  "(jsstring \<Rightarrow> jsstring) \<Rightarrow> (jsstring \<times> json) list \<Rightarrow> json list \<Rightarrow> nat \<Rightarrow> jsstring list \<Rightarrow> error + nat" where
  \<comment> \<open>the statement \<^verbatim>\<open>if (!item.options.some(...) && item.correct_answer) {...}\<close> on
      \<^verbatim>\<open>correctAnswer\<close>; a truthy \<^verbatim>\<open>correct_answer\<close> that is not a string has no
      \<^verbatim>\<open>toLowerCase\<close> method\<close>
  "resolve_correct_answer tbl kvs opts correct cleanOptions =
     (if \<not> has_glyph_option opts \<and> truthy (map_of kvs (utf16 ''correct_answer'')) then
        (case map_of kvs (utf16 ''correct_answer'') of
           Some (JStr a) \<Rightarrow>
             (case findIndex (json_answer_matches tbl (trim (toLowerCase tbl a))) cleanOptions of
                Some matchingIndex \<Rightarrow> Inr matchingIndex
              | None \<Rightarrow> Inr correct)
         | _ \<Rightarrow> Inl TypeError)
      else Inr correct)"

definition convert_item :: "(jsstring \<Rightarrow> jsstring) \<Rightarrow> (jsstring \<times> json) list \<Rightarrow> json list \<Rightarrow> nat \<Rightarrow> error + MCQQuestion option" where
  \<comment> \<open>the body of \<^verbatim>\<open>parseJSONQuestion\<close> after the shape check, on the properties of the
      item and the elements of its \<^verbatim>\<open>options\<close>\<close>
  "convert_item tbl kvs opts index =
     (let additional = keys_loop kvs [] (remdups (map fst kvs)) in
      case options_loop opts 0 (0, []) of
        Inl e \<Rightarrow> Inl e
      | Inr (correct, cleanOptions) \<Rightarrow>
          (case resolve_correct_answer tbl kvs opts correct cleanOptions of
             Inl e \<Rightarrow> Inl e
           | Inr correct' \<Rightarrow>
               Inr (Some
                 \<lparr>id_str = utf16 ''q-'' @ show_nat index,
                  question = (case map_of kvs (utf16 ''question'') of Some v \<Rightarrow> v | None \<Rightarrow> JNull),
                  options = cleanOptions,
                  correctAnswer = correct',
                  explanation =
                    (if truthy (map_of kvs (utf16 ''reasoning''))
                     then map_of kvs (utf16 ''reasoning'')
                     else if truthy (map_of kvs (utf16 ''explanation''))
                     then map_of kvs (utf16 ''explanation'')
                     else None),
                  additionalSections = (if additional \<noteq> [] then Some additional else None)\<rparr>)))"

definition parseJSONQuestion :: "(jsstring \<Rightarrow> jsstring) \<Rightarrow> json \<Rightarrow> nat \<Rightarrow> error + MCQQuestion option" where
  "parseJSONQuestion tbl item index =
     (case get_prop item (utf16 ''question'') of
        Inl e \<Rightarrow> Inl e
      | Inr q \<Rightarrow>
          (case get_prop item (utf16 ''options'') of
             Inl e \<Rightarrow> Inl e
           | Inr os \<Rightarrow>
               if \<not> truthy q \<or> \<not> truthy os \<or> \<not> isArray os then Inr None
               else
                 convert_item tbl (case item of JObj kvs \<Rightarrow> kvs | _ \<Rightarrow> [])
                   (case os of Some (JArr opts) \<Rightarrow> opts | _ \<Rightarrow> []) index))"

fun items_loop :: "(jsstring \<Rightarrow> jsstring) \<Rightarrow> json list \<Rightarrow> nat \<Rightarrow> MCQQuestion list \<Rightarrow> error + MCQQuestion list" where
  \<comment> \<open>\<^verbatim>\<open>data.forEach((item, index) => ...)\<close>, pushing to \<^verbatim>\<open>questions\<close>\<close>
  "items_loop tbl [] index questions = Inr questions"
| "items_loop tbl (item # rest) index questions =
     (case parseJSONQuestion tbl item index of
        Inl e \<Rightarrow> Inl e
      | Inr None \<Rightarrow> items_loop tbl rest (Suc index) questions
      | Inr (Some parsed) \<Rightarrow> items_loop tbl rest (Suc index) (questions @ [parsed]))"

definition parseJSONFormat :: "(jsstring \<Rightarrow> jsstring) \<Rightarrow> json \<Rightarrow> error + MCQQuestion list" where
  "parseJSONFormat tbl data =
     (case get_prop data (utf16 ''question'') of
        Inl e \<Rightarrow> Inl e
      | Inr q \<Rightarrow>
          (case get_prop data (utf16 ''options'') of
             Inl e \<Rightarrow> Inl e
           | Inr os \<Rightarrow>
               if truthy q \<and> truthy os then
                 (case parseJSONQuestion tbl data 0 of
                    Inl e \<Rightarrow> Inl e
                  | Inr None \<Rightarrow> Inr []
                  | Inr (Some parsed) \<Rightarrow> Inr [parsed])
               else
                 (case data of
                    JArr items \<Rightarrow> items_loop tbl items 0 []
                  | JObj kvs \<Rightarrow>
                      (case map_of kvs (utf16 ''questions'') of
                         Some (JArr items) \<Rightarrow> items_loop tbl items 0 []
                       | _ \<Rightarrow> Inr [])
                  | _ \<Rightarrow> Inr [])))"


section \<open>The structured-header parser\<close>

datatype section_tag = NoSection | InQuestion | InOptions | InAnswer | InReasoning | InAdditional

text \<open>The local variables of one block of \<^verbatim>\<open>parseStructuredFormat\<close>.\<close>

record block_state =
  b_question :: jsstring
  b_options :: "jsstring list"
  b_correctAnswer :: nat
  b_explanation :: jsstring
  b_additionalSections :: "additional_section list"
  currentSection :: section_tag
  currentSectionTitle :: jsstring
  currentSectionContent :: jsstring

definition initial_block_state :: block_state where
  "initial_block_state =
     \<lparr>b_question = [], b_options = [], b_correctAnswer = 0, b_explanation = [],
      b_additionalSections = [], currentSection = NoSection, currentSectionTitle = [],
      currentSectionContent = []\<rparr>"

definition answer_matches :: "(jsstring \<Rightarrow> jsstring) \<Rightarrow> jsstring \<Rightarrow> jsstring \<Rightarrow> bool" where
  "answer_matches tbl answerText option =
     (includes_str (toLowerCase tbl option) (toLowerCase tbl answerText)
      \<or> includes_str (toLowerCase tbl answerText) (toLowerCase tbl option))"

definition resolve_answer :: "(jsstring \<Rightarrow> jsstring) \<Rightarrow> block_state \<Rightarrow> jsstring \<Rightarrow> block_state" where
  \<comment> \<open>\<^verbatim>\<open>const matchingIndex = options.findIndex(...); if (matchingIndex !== -1) correctAnswer = matchingIndex\<close>\<close>
  "resolve_answer tbl st answerText =
     (case findIndex (answer_matches tbl answerText) (b_options st) of
        Some matchingIndex \<Rightarrow> st\<lparr>b_correctAnswer := matchingIndex\<rparr>
      | None \<Rightarrow> st)"

definition flush_section :: "block_state \<Rightarrow> block_state" where
  \<comment> \<open>\<^verbatim>\<open>if (currentSection === "additional" && currentSectionTitle && currentSectionContent) additionalSections.push(...)\<close>\<close>
  "flush_section st =
     (if currentSection st = InAdditional \<and> currentSectionTitle st \<noteq> []
         \<and> currentSectionContent st \<noteq> []
      then st\<lparr>b_additionalSections := b_additionalSections st @
                [\<lparr>title = currentSectionTitle st, content = trim (currentSectionContent st)\<rparr>]\<rparr>
      else st)"

definition append_line :: "jsstring \<Rightarrow> jsstring \<Rightarrow> jsstring" where
  \<comment> \<open>\<^verbatim>\<open>text += (text ? "\n" : "") + line\<close>\<close>
  "append_line text line = text @ (if text \<noteq> [] then [10] else []) @ line"

definition strip_dash :: "jsstring \<Rightarrow> jsstring" where
  \<comment> \<open>\<^verbatim>\<open>line.replace(/^-\s*/, "")\<close>\<close>
  "strip_dash line = (case line of [] \<Rightarrow> [] | c # cs \<Rightarrow> if c = 45 then dropWhile is_space cs else line)"

definition plain_line :: "(jsstring \<Rightarrow> jsstring) \<Rightarrow> block_state \<Rightarrow> jsstring \<Rightarrow> block_state" where
  \<comment> \<open>the last branch of the loop body: a line that is no label\<close>
  "plain_line tbl st line =
     (if currentSection st = InQuestion \<and> b_question st = [] then
        st\<lparr>b_question := trim (remove_bold line)\<rparr>
      else if currentSection st = InOptions then
        (if startsWith line [45] then
           (let optionText = trim (strip_dash line);
                isCorrect = (CHECK_MARK \<in> set line);
                optionText' = trim (remove_glyph (remove_bold optionText));
                st' = st\<lparr>b_options := b_options st @ [optionText']\<rparr>
            in if isCorrect then st'\<lparr>b_correctAnswer := length (b_options st') - 1\<rparr> else st')
         else st)
      else if currentSection st = InAnswer then resolve_answer tbl st (trim (remove_bold line))
      else if currentSection st = InReasoning then
        st\<lparr>b_explanation := append_line (b_explanation st) line\<rparr>
      else if currentSection st = InAdditional then
        st\<lparr>currentSectionContent := append_line (currentSectionContent st) line\<rparr>
      else st)"

definition process_line :: "(jsstring \<Rightarrow> jsstring) \<Rightarrow> block_state \<Rightarrow> jsstring \<Rightarrow> block_state" where
  \<comment> \<open>the body of \<^verbatim>\<open>for (const line of lines)\<close>\<close>
  "process_line tbl st line =
     (if label_test (utf16 ''Question'') line then
        (let st' = st\<lparr>currentSection := InQuestion\<rparr> in
         case label_match (utf16 ''Question'') line of
           Some m \<Rightarrow> st'\<lparr>b_question := trim (remove_bold m)\<rparr>
         | None \<Rightarrow> st')
      else if label_test (utf16 ''Options'') line then
        (flush_section st)\<lparr>currentSection := InOptions\<rparr>
      else if label_test (utf16 ''Correct Answer'') line \<or> emphasized_answer_test line then
        (let st' = st\<lparr>currentSection := InAnswer\<rparr> in
         case label_match (utf16 ''Correct Answer'') line of
           Some m \<Rightarrow> resolve_answer tbl st' (trim (remove_bold m))
         | None \<Rightarrow> st')
      else if label_test (utf16 ''Reasoning'') line then
        (let st' = st\<lparr>currentSection := InReasoning\<rparr> in
         case label_match (utf16 ''Reasoning'') line of
           Some m \<Rightarrow> st'\<lparr>b_explanation := trim m\<rparr>
         | None \<Rightarrow> st')
      else
        (case custom_label line of
           Some m \<Rightarrow>
             (flush_section st)\<lparr>currentSection := InAdditional, currentSectionTitle := trim m,
                                currentSectionContent := []\<rparr>
         | None \<Rightarrow> plain_line tbl st line))"

fun process_lines :: "(jsstring \<Rightarrow> jsstring) \<Rightarrow> block_state \<Rightarrow> jsstring list \<Rightarrow> block_state" where
  "process_lines tbl st [] = st"
| "process_lines tbl st (line # lines) = process_lines tbl (process_line tbl st line) lines"

definition block_lines :: "jsstring \<Rightarrow> jsstring list" where
  \<comment> \<open>\<^verbatim>\<open>block.split("\n").map((line) => line.trim()).filter((line) => line)\<close>\<close>
  "block_lines block = filter (\<lambda>line. line \<noteq> []) (map trim (split_nl [] block))"

definition parse_block :: "(jsstring \<Rightarrow> jsstring) \<Rightarrow> jsstring \<Rightarrow> nat \<Rightarrow> MCQQuestion option" where
  \<comment> \<open>the callback of \<^verbatim>\<open>questionBlocks.forEach((block, index) => ...)\<close>: the question
      it pushes, if any\<close>
  "parse_block tbl block index =
     (if \<not> label_test (utf16 ''Question'') block then None
      else
        (let st = flush_section (process_lines tbl initial_block_state (block_lines block)) in
         if b_question st \<noteq> [] \<and> length (b_options st) > 0 then
           Some \<lparr>id_str = utf16 ''q-'' @ show_nat index,
                 question = JStr (b_question st),
                 options = b_options st,
                 correctAnswer = b_correctAnswer st,
                 explanation = (if b_explanation st \<noteq> [] then Some (JStr (b_explanation st)) else None),
                 additionalSections =
                   (if length (b_additionalSections st) > 0 then Some (b_additionalSections st)
                    else None)\<rparr>
         else None))"

definition question_lookahead :: "jsstring \<Rightarrow> bool" where
  \<comment> \<open>\<^verbatim>\<open>(?=\*\*Question:\*\*|Question:\s*-+)\<close> under the flag \<^verbatim>\<open>i\<close>, at the start of
      the rest of the text\<close>
  "question_lookahead rest = (label_re (utf16 ''Question'') accept rest \<noteq> None)"

fun split_blocks :: "jsstring \<Rightarrow> jsstring \<Rightarrow> jsstring list" where
  \<comment> \<open>\<^verbatim>\<open>text.split(/(?=...)/i)\<close>: the text is cut before every position where the
      lookahead holds, except where the piece being read (first argument, reversed) is still
      empty\<close>
  "split_blocks piece [] = [rev piece]"
| "split_blocks piece (c # cs) =
     (if piece \<noteq> [] \<and> question_lookahead (c # cs) then rev piece # split_blocks [c] cs
      else split_blocks (c # piece) cs)"

fun blocks_loop :: "(jsstring \<Rightarrow> jsstring) \<Rightarrow> jsstring list \<Rightarrow> nat \<Rightarrow> MCQQuestion list \<Rightarrow> MCQQuestion list" where
  "blocks_loop tbl [] index questions = questions"
| "blocks_loop tbl (block # rest) index questions =
     blocks_loop tbl rest (Suc index)
       (case parse_block tbl block index of Some q \<Rightarrow> questions @ [q] | None \<Rightarrow> questions)"

definition parseStructuredFormat :: "(jsstring \<Rightarrow> jsstring) \<Rightarrow> jsstring \<Rightarrow> MCQQuestion list" where
  "parseStructuredFormat tbl text =
     blocks_loop tbl (filter (\<lambda>block. trim block \<noteq> []) (split_blocks [] text)) 0 []"


section \<open>The line-pattern parser\<close>

text \<open>The value of \<^verbatim>\<open>currentQuestion: Partial<MCQQuestion>\<close>; \<open>None\<close> is an unset property.\<close>

record partial_question =
  p_question :: "jsstring option"
  p_options :: "jsstring list option"
  p_correctAnswer :: "nat option"
  p_explanation :: "jsstring option"

definition empty_partial :: partial_question where
  "empty_partial = \<lparr>p_question = None, p_options = None, p_correctAnswer = None, p_explanation = None\<rparr>"

definition finished_question :: "partial_question \<Rightarrow> nat \<Rightarrow> MCQQuestion option" where
  \<comment> \<open>the question pushed under \<^verbatim>\<open>if (currentQuestion.question && currentQuestion.options)\<close>:
      a string is truthy when it is not empty, an array always\<close>
  "finished_question cur questionCounter =
     (case (p_question cur, p_options cur) of
        (Some q, Some opts) \<Rightarrow>
          if q \<noteq> [] then
            Some \<lparr>id_str = utf16 ''q-'' @ show_nat questionCounter,
                  question = JStr q,
                  options = opts,
                  correctAnswer = (case p_correctAnswer cur of Some c \<Rightarrow> c | None \<Rightarrow> 0),
                  explanation = map_option JStr (p_explanation cur),
                  additionalSections = None\<rparr>
          else None
      | _ \<Rightarrow> None)"

definition letter_index :: "nat \<Rightarrow> nat" where
  \<comment> \<open>\<^verbatim>\<open>match[0].toUpperCase().charCodeAt(0) - 65\<close>\<close>
  "letter_index c = upper_cu c - 65"

definition is_question_line :: "jsstring \<Rightarrow> bool" where
  \<comment> \<open>\<^verbatim>\<open>/^\d+\.?\s/.test(line) || /^Q\d*\.?\s/i.test(line)\<close>\<close>
  "is_question_line line = (numbered_re accept line \<noteq> None \<or> q_prefixed_re accept line \<noteq> None)"

definition strip_question_label :: "jsstring \<Rightarrow> jsstring" where
  \<comment> \<open>\<^verbatim>\<open>line.replace(/^\d+\.?\s|^Q\d*\.?\s/i, "")\<close>\<close>
  "strip_question_label line =
     (case alt numbered_re q_prefixed_re (\<lambda>r. Some r) line of Some r \<Rightarrow> r | None \<Rightarrow> line)"

definition strip_option_label :: "jsstring \<Rightarrow> jsstring" where
  \<comment> \<open>\<^verbatim>\<open>line.replace(/^[A-Da-d][.)]\s/, "")\<close>\<close>
  "strip_option_label line = (case option_re (\<lambda>r. Some r) line of Some r \<Rightarrow> r | None \<Rightarrow> line)"

definition strip_explanation_label :: "jsstring \<Rightarrow> jsstring" where
  \<comment> \<open>\<^verbatim>\<open>line.replace(/^(Explanation|Reason|Why):\s*/i, "")\<close>\<close>
  "strip_explanation_label line =
     (case explanation_re (star is_space (\<lambda>r. Some r)) line of Some r \<Rightarrow> r | None \<Rightarrow> line)"

definition line_step ::
  "MCQQuestion list \<times> partial_question \<times> nat \<Rightarrow> jsstring \<Rightarrow> MCQQuestion list \<times> partial_question \<times> nat" where
  \<comment> \<open>the body of \<^verbatim>\<open>for (let i = 0; i < lines.length; i++)\<close> on \<^verbatim>\<open>questions\<close>,
      \<^verbatim>\<open>currentQuestion\<close> and \<^verbatim>\<open>questionCounter\<close>\<close>
  "line_step state raw =
     (case state of (questions, cur, questionCounter) \<Rightarrow>
       (let line = trim raw in
        if is_question_line line then
          (let fresh = \<lparr>p_question = Some (trim (strip_question_label line)), p_options = Some [],
                        p_correctAnswer = Some 0, p_explanation = None\<rparr>
           in case finished_question cur questionCounter of
                Some q \<Rightarrow> (questions @ [q], fresh, Suc questionCounter)
              | None \<Rightarrow> (questions, fresh, questionCounter))
        else if option_re accept line \<noteq> None then
          (let opts = (case p_options cur of Some os \<Rightarrow> os | None \<Rightarrow> []) @
                        [trim (strip_option_label line)];
               cur' = cur\<lparr>p_options := Some opts\<rparr>
           in (questions,
               if 42 \<in> set line \<or> TICK \<in> set line then cur'\<lparr>p_correctAnswer := Some (length opts - 1)\<rparr>
               else cur',
               questionCounter))
        else if answer_re accept line \<noteq> None then
          (case find is_AD line of
             Some answerLetter \<Rightarrow>
               (questions, cur\<lparr>p_correctAnswer := Some (letter_index answerLetter)\<rparr>, questionCounter)
           | None \<Rightarrow> (questions, cur, questionCounter))
        else if explanation_re accept line \<noteq> None then
          (questions, cur\<lparr>p_explanation := Some (trim (strip_explanation_label line))\<rparr>, questionCounter)
        else (questions, cur, questionCounter)))"

fun lines_loop ::
  "MCQQuestion list \<times> partial_question \<times> nat \<Rightarrow> jsstring list \<Rightarrow> MCQQuestion list \<times> partial_question \<times> nat" where
  "lines_loop state [] = state"
| "lines_loop state (line # lines) = lines_loop (line_step state line) lines"

definition parseLinePattern :: "nat \<Rightarrow> jsstring \<Rightarrow> MCQQuestion list" where
  \<comment> \<open>the second half of \<^verbatim>\<open>parseMCQText\<close>; the first argument is the value of
      \<^verbatim>\<open>Date.now()\<close>\<close>
  "parseLinePattern now text =
     (let lines = filter (\<lambda>line. trim line \<noteq> []) (split_nl [] text) in
      case lines_loop ([], empty_partial, now) lines of
        (questions, cur, questionCounter) \<Rightarrow>
          (case finished_question cur questionCounter of
             Some q \<Rightarrow> questions @ [q]
           | None \<Rightarrow> questions))"

definition parseMCQText :: "(jsstring \<Rightarrow> jsstring) \<Rightarrow> nat \<Rightarrow> jsstring \<Rightarrow> MCQQuestion list" where
  \<comment> \<open>the second argument is the clock reading \<^verbatim>\<open>Date.now()\<close> of this call\<close>
  "parseMCQText tbl now text =
     (let structuredQuestions = parseStructuredFormat tbl text in
      if length structuredQuestions > 0 then structuredQuestions
      else parseLinePattern now text)"



section \<open>Notions of the specification\<close>




definition ascii_table :: "jsstring \<Rightarrow> jsstring" where
  \<comment> \<open>a case table without any letter beyond ASCII. It stands for the table where a statement
      about concrete ASCII texts needs a concrete one; no such statement consults it\<close>
  "ascii_table s = map lower_cu s"

definition shape_ok :: "json \<Rightarrow> bool" where
  \<comment> \<open>the minimal shape check in the specification's words: a truthy \<^verbatim>\<open>question\<close> field
      and \<^verbatim>\<open>options\<close> present as an array\<close>
  "shape_ok item =
     (case item of
        JObj kvs \<Rightarrow> truthy (map_of kvs (utf16 ''question'')) \<and> isArray (map_of kvs (utf16 ''options''))
      | _ \<Rightarrow> False)"

definition is_string :: "json \<Rightarrow> bool" where
  "is_string v = (case v of JStr s \<Rightarrow> True | _ \<Rightarrow> False)"

definition item_typed :: "json \<Rightarrow> bool" where
  \<comment> \<open>an element typed as the interface grammar \<^verbatim>\<open>QuestionObject\<close> has it, fields possibly
      missing: it is not null, the elements of an \<^verbatim>\<open>options\<close> array are strings, and
      \<^verbatim>\<open>correct_answer\<close> is absent, falsy or a string\<close>
  "item_typed item =
     (case item of
        JNull \<Rightarrow> False
      | JObj kvs \<Rightarrow>
          (case map_of kvs (utf16 ''options'') of
             Some (JArr opts) \<Rightarrow> list_all is_string opts
           | _ \<Rightarrow> True)
          \<and> (case map_of kvs (utf16 ''correct_answer'') of
               None \<Rightarrow> True
             | Some v \<Rightarrow> if truthy (Some v) then is_string v else True)
      | _ \<Rightarrow> True)"

definition recognised :: "json \<Rightarrow> bool" where
  \<comment> \<open>the three input shapes of the specification: a single question object, an array, an
      object with a \<^verbatim>\<open>questions\<close> array\<close>
  "recognised data =
     (shape_ok data
      \<or> (case data of
            JArr items \<Rightarrow> True
          | JObj kvs \<Rightarrow> isArray (map_of kvs (utf16 ''questions''))
          | _ \<Rightarrow> False))"

definition input_typed :: "json \<Rightarrow> bool" where
  \<comment> \<open>a decoded value that is not null and whose candidate items are typed\<close>
  "input_typed data =
     (case data of
        JNull \<Rightarrow> False
      | JArr items \<Rightarrow> list_all item_typed items
      | JObj kvs \<Rightarrow>
          item_typed data
          \<and> (case map_of kvs (utf16 ''questions'') of
               Some (JArr items) \<Rightarrow> list_all item_typed items
             | _ \<Rightarrow> True)
      | _ \<Rightarrow> True)"


section \<open>Facts about the helpers\<close>

lemma findIndex_Some_iff:
  "findIndex p xs = Some i \<longleftrightarrow> i < length xs \<and> p (xs ! i) \<and> (\<forall>j<i. \<not> p (xs ! j))"
proof (induction xs arbitrary: i)
  case Nil
  then show ?case by simp
next
  case (Cons x xs)
  show ?case
  proof (cases "p x")
    case True
    then show ?thesis by (cases i) auto
  next
    case False
    show ?thesis
    proof (cases i)
      case 0
      with False show ?thesis by auto
    next
      case (Suc k)
      have "(\<forall>j<Suc k. \<not> p ((x # xs) ! j)) \<longleftrightarrow> (\<forall>j<k. \<not> p (xs ! j))"
        using False by (auto simp: less_Suc_eq_0_disj)
      with False Suc Cons.IH [of k] show ?thesis by auto
    qed
  qed
qed




lemma options_loop_strings:
  "\<exists>correct'. options_loop (map JStr opts) i (correct, acc) =
       Inr (correct', acc @ map (\<lambda>s. trim (remove_glyph s)) opts) \<and>
     (if \<exists>s \<in> set opts. CHECK_MARK \<in> set s
      then i \<le> correct' \<and> correct' < i + length opts \<and> CHECK_MARK \<in> set (opts ! (correct' - i)) \<and>
           (\<forall>j. correct' - i < j \<and> j < length opts \<longrightarrow> CHECK_MARK \<notin> set (opts ! j))
      else correct' = correct)"
proof (induction opts arbitrary: i correct acc)
  case Nil
  then show ?case by simp
next
  case (Cons s opts)
  let ?c = "if CHECK_MARK \<in> set s then i else correct"
  from Cons.IH [of "Suc i" ?c "acc @ [trim (remove_glyph s)]"]
  obtain c' where run: "options_loop (map JStr opts) (Suc i) (?c, acc @ [trim (remove_glyph s)]) =
        Inr (c', (acc @ [trim (remove_glyph s)]) @ map (\<lambda>s. trim (remove_glyph s)) opts)"
    and pos: "if \<exists>s \<in> set opts. CHECK_MARK \<in> set s
      then Suc i \<le> c' \<and> c' < Suc i + length opts \<and> CHECK_MARK \<in> set (opts ! (c' - Suc i)) \<and>
           (\<forall>j. c' - Suc i < j \<and> j < length opts \<longrightarrow> CHECK_MARK \<notin> set (opts ! j))
      else c' = ?c"
    by blast
  have eq: "options_loop (map JStr (s # opts)) i (correct, acc) =
      Inr (c', acc @ map (\<lambda>s. trim (remove_glyph s)) (s # opts))"
    using run by simp
  show ?case
  proof (cases "\<exists>t \<in> set opts. CHECK_MARK \<in> set t")
    case True
    with pos have p: "Suc i \<le> c'" "c' < Suc i + length opts" "CHECK_MARK \<in> set (opts ! (c' - Suc i))"
      "\<forall>j. c' - Suc i < j \<and> j < length opts \<longrightarrow> CHECK_MARK \<notin> set (opts ! j)" by auto
    from p(1) have idx: "c' - i = Suc (c' - Suc i)" by arith
    have later: "\<forall>j. c' - i < j \<and> j < length (s # opts) \<longrightarrow> CHECK_MARK \<notin> set ((s # opts) ! j)"
    proof (intro allI impI)
      fix j assume j: "c' - i < j \<and> j < length (s # opts)"
      then obtain k where k: "j = Suc k" by (cases j) auto
      with j idx have "c' - Suc i < k \<and> k < length opts" by auto
      with p(4) k show "CHECK_MARK \<notin> set ((s # opts) ! j)" by auto
    qed
    from True have ex: "\<exists>t \<in> set (s # opts). CHECK_MARK \<in> set t" by auto
    show ?thesis
      using eq ex p later idx by (intro exI [of _ c']) auto
  next
    case False
    with pos have c': "c' = ?c" by auto
    show ?thesis
    proof (cases "CHECK_MARK \<in> set s")
      case True
      with c' have "c' = i" by simp
      moreover have "\<forall>j. 0 < j \<and> j < length (s # opts) \<longrightarrow> CHECK_MARK \<notin> set ((s # opts) ! j)"
        using False by (auto simp: nth_Cons split: nat.splits)
      ultimately show ?thesis using eq True by (intro exI [of _ c']) auto
    next
      case False2: False
      with c' have "c' = correct" by simp
      then show ?thesis using eq False False2 by (intro exI [of _ c']) auto
    qed
  qed
qed









lemma has_glyph_option_strings:
  "has_glyph_option (map JStr opts) = (\<exists>s \<in> set opts. CHECK_MARK \<in> set s)"
  by (auto simp: has_glyph_option_def)

lemma parseJSONQuestion_shape_ok:
  assumes "truthy (map_of kvs (utf16 ''question''))"
      and "map_of kvs (utf16 ''options'') = Some (JArr opts)"
  shows "parseJSONQuestion tbl (JObj kvs) index = convert_item tbl kvs opts index"
  using assms by (simp add: parseJSONQuestion_def get_prop_def truthy_def isArray_def)

lemmas char_defs = is_space_def is_line_terminator_def is_digit_def is_word_def is_AD_def
  is_dash_def is_dot_def is_dot_or_paren_def upper_cu_def lower_cu_def

lemma set_trim_subset: "set (trim s) \<subseteq> set s"
  unfolding trim_def by (auto dest!: set_dropWhileD)

lemma no_glyph_in_clean_option: "CHECK_MARK \<notin> set (trim (remove_glyph s))"
  using set_trim_subset [of "remove_glyph s"] by (auto simp: remove_glyph_def)

lemma resolve_correct_answer_glyph:
  "\<exists>s \<in> set opts. CHECK_MARK \<in> set s \<Longrightarrow>
     resolve_correct_answer tbl kvs (map JStr opts) c clean = Inr c"
  by (simp add: resolve_correct_answer_def has_glyph_option_strings)

lemma resolve_correct_answer_typed:
  assumes "(\<exists>s \<in> set opts. CHECK_MARK \<in> set s)
           \<or> \<not> truthy (map_of kvs (utf16 ''correct_answer''))
           \<or> (\<exists>a. map_of kvs (utf16 ''correct_answer'') = Some (JStr a))"
  shows "\<exists>c'. resolve_correct_answer tbl kvs (map JStr opts) c clean = Inr c'"
  using assms
  by (auto simp: resolve_correct_answer_def has_glyph_option_strings split: option.splits)

lemma keys_loop_mono: "set secs \<subseteq> set (keys_loop kvs secs keys)"
proof (induction keys arbitrary: secs)
  case Nil
  then show ?case by simp
next
  case (Cons key keys)
  let ?secs' = "if \<not> excluded_key key then
          (case map_of kvs key of
             Some (JStr s) \<Rightarrow>
               if trim s \<noteq> [] then secs @ [\<lparr>title = section_title key, content = s\<rparr>] else secs
           | _ \<Rightarrow> secs)
        else secs"
  have "set secs \<subseteq> set ?secs'"
    by (auto split: option.splits json.splits)
  also have "\<dots> \<subseteq> set (keys_loop kvs ?secs' keys)" by (rule Cons.IH)
  finally show ?case by simp
qed

lemma keys_loop_member:
  assumes "key \<in> set keys" "\<not> excluded_key key" "map_of kvs key = Some (JStr s)" "trim s \<noteq> []"
  shows "\<lparr>title = section_title key, content = s\<rparr> \<in> set (keys_loop kvs secs keys)"
  using assms(1)
proof (induction keys arbitrary: secs)
  case Nil
  then show ?case by simp
next
  case (Cons k keys)
  show ?case
  proof (cases "k = key")
    case True
    have "\<lparr>title = section_title key, content = s\<rparr>
            \<in> set (secs @ [\<lparr>title = section_title key, content = s\<rparr>])" by simp
    also have "\<dots> \<subseteq> set (keys_loop kvs (secs @ [\<lparr>title = section_title key, content = s\<rparr>]) keys)"
      by (rule keys_loop_mono)
    finally show ?thesis using True assms(2-4) by simp
  next
    case False
    with Cons.prems have "key \<in> set keys" by simp
    from Cons.IH [OF this] show ?thesis by simp
  qed
qed

lemma list_all_is_string: "list_all is_string vs \<Longrightarrow> \<exists>strs. vs = map JStr strs"
proof (induction vs)
  case Nil
  then show ?case by simp
next
  case (Cons v vs)
  then obtain strs where "vs = map JStr strs" by auto
  moreover from Cons.prems obtain s where "v = JStr s"
    by (cases v) (auto simp: is_string_def)
  ultimately have "v # vs = map JStr (s # strs)" by simp
  then show ?case by (rule exI)
qed

lemma convert_item_returns:
  assumes "(\<exists>s \<in> set opts. CHECK_MARK \<in> set s)
           \<or> \<not> truthy (map_of kvs (utf16 ''correct_answer''))
           \<or> (\<exists>a. map_of kvs (utf16 ''correct_answer'') = Some (JStr a))"
  shows "\<exists>q. convert_item tbl kvs (map JStr opts) index = Inr (Some q) \<and>
           id_str q = utf16 ''q-'' @ show_nat index \<and>
           options q = map (\<lambda>s. trim (remove_glyph s)) opts \<and>
           explanation q =
             (if truthy (map_of kvs (utf16 ''reasoning'')) then map_of kvs (utf16 ''reasoning'')
              else if truthy (map_of kvs (utf16 ''explanation''))
              then map_of kvs (utf16 ''explanation'') else None) \<and>
           additionalSections q =
             (if keys_loop kvs [] (remdups (map fst kvs)) \<noteq> []
              then Some (keys_loop kvs [] (remdups (map fst kvs))) else None)"
proof -
  define clean where "clean = map (\<lambda>s. trim (remove_glyph s)) opts"
  from options_loop_strings [of opts 0 0 "[]"]
  obtain c where loop: "options_loop (map JStr opts) 0 (0, []) = Inr (c, clean)"
    by (auto simp: clean_def)
  from resolve_correct_answer_typed [OF assms, of tbl c clean]
  obtain c' where "resolve_correct_answer tbl kvs (map JStr opts) c clean = Inr c'" by blast
  with loop show ?thesis
    unfolding clean_def [symmetric] by (simp add: convert_item_def Let_def)
qed

lemma parseJSONQuestion_null: "parseJSONQuestion tbl JNull index = Inl TypeError"
  by (simp add: parseJSONQuestion_def get_prop_def)

lemma parseJSONQuestion_not_shape_ok:
  "item \<noteq> JNull \<Longrightarrow> \<not> shape_ok item \<Longrightarrow> parseJSONQuestion tbl item index = Inr None"
  by (cases item) (auto simp: parseJSONQuestion_def get_prop_def shape_ok_def truthy_def isArray_def)

lemma parseJSONQuestion_typed:
  assumes "item_typed item" "shape_ok item"
  shows "\<exists>q. parseJSONQuestion tbl item index = Inr (Some q)"
proof -
  from assms(2) obtain kvs where item: "item = JObj kvs"
    and q: "truthy (map_of kvs (utf16 ''question''))"
    and "isArray (map_of kvs (utf16 ''options''))"
    by (cases item) (auto simp: shape_ok_def)
  then obtain vs where vs: "map_of kvs (utf16 ''options'') = Some (JArr vs)"
    by (auto simp: isArray_def split: option.splits json.splits)
  with assms(1) item have "list_all is_string vs" by (simp add: item_typed_def)
  then obtain opts where opts: "vs = map JStr opts" using list_all_is_string by blast
  have "\<not> truthy (map_of kvs (utf16 ''correct_answer''))
        \<or> (\<exists>a. map_of kvs (utf16 ''correct_answer'') = Some (JStr a))"
    using assms(1) item
    by (cases "map_of kvs (utf16 ''correct_answer'')")
       (auto simp: item_typed_def is_string_def truthy_def split: json.splits if_splits)
  then have "(\<exists>s \<in> set opts. CHECK_MARK \<in> set s)
           \<or> \<not> truthy (map_of kvs (utf16 ''correct_answer''))
           \<or> (\<exists>a. map_of kvs (utf16 ''correct_answer'') = Some (JStr a))" by blast
  from convert_item_returns [OF this, of tbl index]
  obtain r where "convert_item tbl kvs (map JStr opts) index = Inr (Some r)" by blast
  moreover have "parseJSONQuestion tbl (JObj kvs) index = convert_item tbl kvs (map JStr opts) index"
    using q vs [unfolded opts] by (rule parseJSONQuestion_shape_ok)
  ultimately show ?thesis using item by auto
qed

lemma item_typed_not_null: "item_typed item \<Longrightarrow> item \<noteq> JNull"
  by (auto simp: item_typed_def)

lemma items_loop_typed:
  assumes "\<forall>x \<in> set items. item_typed x"
  shows "\<exists>qs. items_loop tbl items index questions = Inr (questions @ qs) \<and>
           map (\<lambda>q. Inr (Some q)) qs =
             map (\<lambda>(i, x). parseJSONQuestion tbl x i)
               (filter (\<lambda>(i, x). shape_ok x) (enumerate index items))"
  using assms
proof (induction items arbitrary: index questions)
  case Nil
  then show ?case by simp
next
  case (Cons item items)
  then have typed: "item_typed item" and rest: "\<forall>x \<in> set items. item_typed x" by auto
  show ?case
  proof (cases "shape_ok item")
    case True
    from parseJSONQuestion_typed [OF typed True, of tbl index]
    obtain q where q: "parseJSONQuestion tbl item index = Inr (Some q)" by blast
    from Cons.IH [OF rest, of "Suc index" "questions @ [q]"]
    obtain qs where "items_loop tbl items (Suc index) (questions @ [q]) = Inr ((questions @ [q]) @ qs)"
      and "map (\<lambda>q. Inr (Some q)) qs =
             map (\<lambda>(i, x). parseJSONQuestion tbl x i)
               (filter (\<lambda>(i, x). shape_ok x) (enumerate (Suc index) items))"
      by blast
    with q True have "items_loop tbl (item # items) index questions = Inr (questions @ (q # qs)) \<and>
           map (\<lambda>q. Inr (Some q)) (q # qs) =
             map (\<lambda>(i, x). parseJSONQuestion tbl x i)
               (filter (\<lambda>(i, x). shape_ok x) (enumerate index (item # items)))"
      by simp
    then show ?thesis by blast
  next
    case False
    with typed have q: "parseJSONQuestion tbl item index = Inr None"
      by (simp add: parseJSONQuestion_not_shape_ok item_typed_not_null)
    from Cons.IH [OF rest, of "Suc index" questions]
    obtain qs where "items_loop tbl items (Suc index) questions = Inr (questions @ qs)"
      and "map (\<lambda>q. Inr (Some q)) qs =
             map (\<lambda>(i, x). parseJSONQuestion tbl x i)
               (filter (\<lambda>(i, x). shape_ok x) (enumerate (Suc index) items))"
      by blast
    with q False have "items_loop tbl (item # items) index questions = Inr (questions @ qs) \<and>
           map (\<lambda>q. Inr (Some q)) qs =
             map (\<lambda>(i, x). parseJSONQuestion tbl x i)
               (filter (\<lambda>(i, x). shape_ok x) (enumerate index (item # items)))"
      by simp
    then show ?thesis by blast
  qed
qed

lemma length_filter_enumerate:
  "length (filter (\<lambda>(i, x). P x) (enumerate n xs)) = length (filter P xs)"
  by (induction xs arbitrary: n) auto

lemmas json_defs = parseJSONFormat_def parseJSONQuestion_def convert_item_def
  resolve_correct_answer_def has_glyph_option_def json_answer_matches_def get_prop_def truthy_def
  isArray_def excluded_key_def section_title_def remove_glyph_def trim_def toLowerCase_def is_ascii_def
  utf16_def Let_def

lemma parseJSONFormat_single:
  "shape_ok data \<Longrightarrow>
     parseJSONFormat tbl data =
       (case parseJSONQuestion tbl data 0 of
          Inl e \<Rightarrow> Inl e | Inr None \<Rightarrow> Inr [] | Inr (Some parsed) \<Rightarrow> Inr [parsed])"
  by (cases data) (auto simp: shape_ok_def parseJSONFormat_def get_prop_def isArray_def truthy_def
      split: option.splits json.splits)

lemmas re_defs = one_def plus_def optional_def alt_def accept_def dot_plus_def label_re_def
  label_test_def label_match_def emphasized_answer_test_def custom_label_def numbered_re_def
  q_prefixed_re_def option_re_def answer_re_def explanation_re_def

lemmas text_defs = parseMCQText_def parseLinePattern_def parseStructuredFormat_def parse_block_def
  block_lines_def question_lookahead_def line_step_def finished_question_def empty_partial_def
  is_question_line_def strip_question_label_def strip_option_label_def
  strip_explanation_label_def letter_index_def process_line_def plain_line_def strip_dash_def
  flush_section_def resolve_answer_def answer_matches_def append_line_def
  initial_block_state_def trim_def utf16_def toLowerCase_def is_ascii_def remove_glyph_def Let_def

lemma finished_question_counter:
  "finished_question cur n =
     map_option (\<lambda>q. q\<lparr>id_str := utf16 ''q-'' @ show_nat n\<rparr>) (finished_question cur 0)"
  by (simp add: finished_question_def split: option.splits)

lemma line_step_counter:
  "line_step (questions, cur, n) raw =
     (case line_step ([], cur, 0) raw of
        (new, cur', k) \<Rightarrow>
          (questions @ map (\<lambda>q. q\<lparr>id_str := utf16 ''q-'' @ show_nat n\<rparr>) new, cur', n + k))"
  unfolding line_step_def Let_def prod.case
  by (subst finished_question_counter) (simp split: option.splits)

lemma line_step_new:
  "line_step ([], cur, 0) raw = (new, cur', k) \<Longrightarrow> length new = k"
  unfolding line_step_def Let_def prod.case
  by (auto split: option.splits if_splits)

lemma strip_set_id: "(q\<lparr>id_str := a\<rparr>)\<lparr>id_str := []\<rparr> = q\<lparr>id_str := []\<rparr>"
  by simp

lemma lines_loop_strip:
  assumes "map (\<lambda>q. q\<lparr>id_str := []\<rparr>) qs1 = map (\<lambda>q. q\<lparr>id_str := []\<rparr>) qs2"
  shows "(case lines_loop (qs1, cur, n1) lines of
            (qs, c, n) \<Rightarrow> (map (\<lambda>q. q\<lparr>id_str := []\<rparr>) qs, c)) =
         (case lines_loop (qs2, cur, n2) lines of
            (qs, c, n) \<Rightarrow> (map (\<lambda>q. q\<lparr>id_str := []\<rparr>) qs, c))"
  using assms
proof (induction lines arbitrary: qs1 qs2 cur n1 n2)
  case Nil
  then show ?case by simp
next
  case (Cons line lines)
  obtain new cur' k where step: "line_step ([], cur, 0) line = (new, cur', k)"
    by (cases "line_step ([], cur, 0) line") auto
  have s1: "line_step (qs1, cur, n1) line =
      (qs1 @ map (\<lambda>q. q\<lparr>id_str := utf16 ''q-'' @ show_nat n1\<rparr>) new, cur', n1 + k)"
    by (subst line_step_counter) (simp add: step)
  have s2: "line_step (qs2, cur, n2) line =
      (qs2 @ map (\<lambda>q. q\<lparr>id_str := utf16 ''q-'' @ show_nat n2\<rparr>) new, cur', n2 + k)"
    by (subst line_step_counter) (simp add: step)
  have "map (\<lambda>q. q\<lparr>id_str := []\<rparr>) (qs1 @ map (\<lambda>q. q\<lparr>id_str := utf16 ''q-'' @ show_nat n1\<rparr>) new) =
        map (\<lambda>q. q\<lparr>id_str := []\<rparr>) (qs2 @ map (\<lambda>q. q\<lparr>id_str := utf16 ''q-'' @ show_nat n2\<rparr>) new)"
    using Cons.prems by (simp add: comp_def)
  from Cons.IH [OF this, of cur' "n1 + k" "n2 + k"] show ?case
    by (simp add: s1 s2)
qed

lemma parseLinePattern_strip:
  "map (\<lambda>q. q\<lparr>id_str := []\<rparr>) (parseLinePattern now1 text) =
   map (\<lambda>q. q\<lparr>id_str := []\<rparr>) (parseLinePattern now2 text)"
proof -
  let ?lines = "filter (\<lambda>line. trim line \<noteq> []) (split_nl [] text)"
  obtain qs1 c1 m1 where r1: "lines_loop ([], empty_partial, now1) ?lines = (qs1, c1, m1)"
    by (cases "lines_loop ([], empty_partial, now1) ?lines") auto
  obtain qs2 c2 m2 where r2: "lines_loop ([], empty_partial, now2) ?lines = (qs2, c2, m2)"
    by (cases "lines_loop ([], empty_partial, now2) ?lines") auto
  from lines_loop_strip [of "[]" "[]" empty_partial now1 ?lines now2] r1 r2
  have eq: "map (\<lambda>q. q\<lparr>id_str := []\<rparr>) qs1 = map (\<lambda>q. q\<lparr>id_str := []\<rparr>) qs2" "c1 = c2"
    by simp_all
  have f: "map_option (\<lambda>q. q\<lparr>id_str := []\<rparr>) (finished_question c1 m1) =
           map_option (\<lambda>q. q\<lparr>id_str := []\<rparr>) (finished_question c2 m2)"
    unfolding eq(2)
    by (subst finished_question_counter, subst (2) finished_question_counter)
       (simp add: option.map_comp comp_def)
  show ?thesis
  proof (cases "finished_question c1 m1")
    case None
    with f have "finished_question c2 m2 = None" by simp
    with None eq(1) show ?thesis by (simp add: parseLinePattern_def Let_def r1 r2)
  next
    case (Some q1)
    with f obtain q2 where "finished_question c2 m2 = Some q2"
      "q1\<lparr>id_str := []\<rparr> = q2\<lparr>id_str := []\<rparr>"
      by (cases "finished_question c2 m2") auto
    with Some eq(1) show ?thesis by (simp add: parseLinePattern_def Let_def r1 r2)
  qed
qed

lemma lines_loop_ids:
  assumes "n = now + length qs"
      and "map id_str qs = map (\<lambda>i. utf16 ''q-'' @ show_nat (now + i)) [0..<length qs]"
  shows "case lines_loop (qs, cur, n) lines of
           (qs', c, n') \<Rightarrow> n' = now + length qs' \<and>
             map id_str qs' = map (\<lambda>i. utf16 ''q-'' @ show_nat (now + i)) [0..<length qs']"
  using assms
proof (induction lines arbitrary: qs cur n)
  case Nil
  then show ?case by simp
next
  case (Cons line lines)
  obtain new cur' k where step: "line_step ([], cur, 0) line = (new, cur', k)"
    by (cases "line_step ([], cur, 0) line") auto
  then have k: "length new = k" by (rule line_step_new)
  have k1: "k \<le> 1"
    using step unfolding line_step_def Let_def prod.case
    by (auto split: option.splits if_splits)
  let ?qs = "qs @ map (\<lambda>q. q\<lparr>id_str := utf16 ''q-'' @ show_nat n\<rparr>) new"
  have s: "line_step (qs, cur, n) line = (?qs, cur', n + k)"
    by (subst line_step_counter) (simp add: step)
  have a: "n + k = now + length ?qs" using Cons.prems(1) k by simp
  have b: "map id_str ?qs = map (\<lambda>i. utf16 ''q-'' @ show_nat (now + i)) [0..<length ?qs]"
  proof (cases new)
    case Nil
    with Cons.prems(2) show ?thesis by simp
  next
    case (Cons q rest)
    with k k1 have "new = [q]" by (cases rest) auto
    with Cons.prems show ?thesis by simp
  qed
  from Cons.IH [OF a b, of cur'] show ?case by (simp add: s)
qed

lemma parseLinePattern_ids:
  "map id_str (parseLinePattern now text) =
     map (\<lambda>i. utf16 ''q-'' @ show_nat (now + i)) [0..<length (parseLinePattern now text)]"
proof -
  let ?lines = "filter (\<lambda>line. trim line \<noteq> []) (split_nl [] text)"
  obtain qs c n where r: "lines_loop ([], empty_partial, now) ?lines = (qs, c, n)"
    by (cases "lines_loop ([], empty_partial, now) ?lines") auto
  from lines_loop_ids [of now now "[]" empty_partial ?lines] r
  have inv: "n = now + length qs"
    "map id_str qs = map (\<lambda>i. utf16 ''q-'' @ show_nat (now + i)) [0..<length qs]"
    by simp_all
  show ?thesis
  proof (cases "finished_question c n")
    case None
    with r inv show ?thesis by (simp add: parseLinePattern_def Let_def)
  next
    case (Some q)
    then have "id_str q = utf16 ''q-'' @ show_nat n"
      by (subst (asm) finished_question_counter) auto
    with Some r inv show ?thesis by (simp add: parseLinePattern_def Let_def)
  qed
qed

lemma resolve_answer_fields:
  "b_options (resolve_answer tbl st a) = b_options st"
  "b_correctAnswer (resolve_answer tbl st a) = b_correctAnswer st
     \<or> b_correctAnswer (resolve_answer tbl st a) < length (b_options st)"
  by (auto simp: resolve_answer_def findIndex_Some_iff split: option.splits)

lemma flush_section_fields:
  "b_options (flush_section st) = b_options st"
  "b_correctAnswer (flush_section st) = b_correctAnswer st"
  "b_question (flush_section st) = b_question st"
  by (simp_all add: flush_section_def)






section \<open>The JSON extractor: which option is the correct one\<close>





section \<open>The JSON extractor: several marked options\<close>

text \<open>
  Claim C10. For every case table: when an item's options are strings and at least one of them (so also when more
  than one) holds the marker glyph, the extractor returns a question whose
  \<^verbatim>\<open>correctAnswer\<close> is the position of the last option that holds the glyph; the stored
  options are the input options in the same number and order, each trimmed and with every
  glyph removed, so no stored option holds the glyph.
\<close>

theorem parseJSONQuestion_last_glyph_wins:
  assumes q: "truthy (map_of kvs (utf16 ''question''))"
      and os: "map_of kvs (utf16 ''options'') = Some (JArr (map JStr opts))"
      and g: "\<exists>s \<in> set opts. CHECK_MARK \<in> set s"
  shows "\<exists>q. parseJSONQuestion tbl (JObj kvs) index = Inr (Some q) \<and>
           options q = map (\<lambda>s. trim (remove_glyph s)) opts \<and>
           (\<forall>option \<in> set (options q). CHECK_MARK \<notin> set option) \<and>
           correctAnswer q < length opts \<and> CHECK_MARK \<in> set (opts ! correctAnswer q) \<and>
           (\<forall>j. correctAnswer q < j \<and> j < length opts \<longrightarrow> CHECK_MARK \<notin> set (opts ! j))"
proof -
  define clean where "clean = map (\<lambda>s. trim (remove_glyph s)) opts"
  have "\<exists>c. options_loop (map JStr opts) 0 (0, []) = Inr (c, clean) \<and>
       c < length opts \<and> CHECK_MARK \<in> set (opts ! c) \<and>
       (\<forall>j. c < j \<and> j < length opts \<longrightarrow> CHECK_MARK \<notin> set (opts ! j))"
    using options_loop_strings [of opts 0 0 "[]"] g by (auto simp: clean_def)
  then obtain c where loop: "options_loop (map JStr opts) 0 (0, []) = Inr (c, clean)"
    and c: "c < length opts" "CHECK_MARK \<in> set (opts ! c)"
      "\<forall>j. c < j \<and> j < length opts \<longrightarrow> CHECK_MARK \<notin> set (opts ! j)"
    by blast
  have "parseJSONQuestion tbl (JObj kvs) index = convert_item tbl kvs (map JStr opts) index"
    using q os by (rule parseJSONQuestion_shape_ok)
  with loop resolve_correct_answer_glyph [OF g, of tbl kvs c clean]
  obtain r where r: "parseJSONQuestion tbl (JObj kvs) index = Inr (Some r)"
    "options r = clean" "correctAnswer r = c"
    by (simp add: convert_item_def Let_def)
  have "\<forall>option \<in> set clean. CHECK_MARK \<notin> set option"
    using no_glyph_in_clean_option by (auto simp: clean_def)
  then show ?thesis using r c unfolding clean_def [symmetric] by auto
qed

theorem parseJSONQuestion_last_glyph_wins_witness:
  "\<exists>q. parseJSONQuestion ascii_table
          (JObj [(utf16 ''question'', JStr (utf16 ''Pick'')),
                 (utf16 ''options'',
                  JArr [JStr (utf16 ''a '' @ [CHECK_MARK]), JStr (utf16 ''b''),
                        JStr ([CHECK_MARK] @ utf16 '' c'')])]) 7 = Inr (Some q) \<and>
       options q = [utf16 ''a'', utf16 ''b'', utf16 ''c''] \<and> correctAnswer q = 2"
proof -
  let ?kvs = "[(utf16 ''question'', JStr (utf16 ''Pick'')),
               (utf16 ''options'',
                JArr [JStr (utf16 ''a '' @ [CHECK_MARK]), JStr (utf16 ''b''),
                      JStr ([CHECK_MARK] @ utf16 '' c'')])]"
  let ?opts = "[utf16 ''a '' @ [CHECK_MARK], utf16 ''b'', [CHECK_MARK] @ utf16 '' c'']"
  have h1: "truthy (map_of ?kvs (utf16 ''question''))"
    by (simp add: truthy_def utf16_def)
  have h2: "map_of ?kvs (utf16 ''options'') = Some (JArr (map JStr ?opts))"
    by (simp add: utf16_def)
  have h3: "\<exists>s \<in> set ?opts. CHECK_MARK \<in> set s"
    by simp
  from parseJSONQuestion_last_glyph_wins [OF h1 h2 h3, of ascii_table 7] obtain q
    where q: "parseJSONQuestion ascii_table (JObj ?kvs) 7 = Inr (Some q)"
      and each: "options q = map (\<lambda>s. trim (remove_glyph s)) ?opts"
      and c: "correctAnswer q < 3"
      and later: "\<forall>j. correctAnswer q < j \<and> j < 3 \<longrightarrow> CHECK_MARK \<notin> set (?opts ! j)"
    by auto
  have o: "options q = [utf16 ''a'', utf16 ''b'', utf16 ''c'']"
    unfolding each by (simp add: utf16_def trim_def remove_glyph_def char_defs)
  have "correctAnswer q = 2"
  proof (rule ccontr)
    assume "correctAnswer q \<noteq> 2"
    with c have "correctAnswer q < 2 \<and> (2::nat) < 3" by arith
    with later have "CHECK_MARK \<notin> set (?opts ! 2)" by blast
    then show False by simp
  qed
  with q o show ?thesis by blast
qed



section \<open>The JSON extractor: the explanation property\<close>

text \<open>
  Claim C9. For every case table, and for an item that passes the shape check (string options, \<^verbatim>\<open>correct_answer\<close>
  absent or a string), whose \<^verbatim>\<open>explanation\<close> property is a string that is not blank and
  which has no \<^verbatim>\<open>reasoning\<close> property, the extractor returns a question whose
  explanation is that string and whose additional sections hold an entry titled
  \<^verbatim>\<open>Explanation\<close> with that string as content: \<^verbatim>\<open>explanation\<close> is not one of the
  excluded keys.
\<close>

theorem parseJSONQuestion_explanation_twice:
  assumes q: "truthy (map_of kvs (utf16 ''question''))"
      and os: "map_of kvs (utf16 ''options'') = Some (JArr (map JStr opts))"
      and ca: "map_of kvs (utf16 ''correct_answer'') = None
               \<or> map_of kvs (utf16 ''correct_answer'') = Some (JStr a)"
      and e: "map_of kvs (utf16 ''explanation'') = Some (JStr text)" "trim text \<noteq> []"
      and r: "map_of kvs (utf16 ''reasoning'') = None"
  shows "\<exists>q secs. parseJSONQuestion tbl (JObj kvs) index = Inr (Some q) \<and>
           explanation q = Some (JStr text) \<and>
           additionalSections q = Some secs \<and>
           \<lparr>title = utf16 ''Explanation'', content = text\<rparr> \<in> set secs"
proof -
  have typed: "(\<exists>s \<in> set opts. CHECK_MARK \<in> set s)
           \<or> \<not> truthy (map_of kvs (utf16 ''correct_answer''))
           \<or> (\<exists>a. map_of kvs (utf16 ''correct_answer'') = Some (JStr a))"
    using ca by (auto simp: truthy_def)
  have conv: "parseJSONQuestion tbl (JObj kvs) index = convert_item tbl kvs (map JStr opts) index"
    using q os by (rule parseJSONQuestion_shape_ok)
  from e(2) have "text \<noteq> []" by (auto simp: trim_def)
  with e(1) have te: "truthy (map_of kvs (utf16 ''explanation''))" by (simp add: truthy_def)
  from r have tr: "\<not> truthy (map_of kvs (utf16 ''reasoning''))" by (simp add: truthy_def)
  have key: "utf16 ''explanation'' \<in> set (remdups (map fst kvs))"
    using e(1) by (auto dest: map_of_SomeD intro: rev_image_eqI)
  have nex: "\<not> excluded_key (utf16 ''explanation'')"
    by (simp add: excluded_key_def utf16_def)
  have title: "section_title (utf16 ''explanation'') = utf16 ''Explanation''"
    by (simp add: section_title_def utf16_def char_defs)
  from keys_loop_member [OF key nex e(1) e(2), of "[]"]
  have mem: "\<lparr>title = utf16 ''Explanation'', content = text\<rparr>
               \<in> set (keys_loop kvs [] (remdups (map fst kvs)))"
    by (simp only: title)
  then have ne: "keys_loop kvs [] (remdups (map fst kvs)) \<noteq> []" by auto
  from convert_item_returns [OF typed, of tbl index] obtain q
    where "convert_item tbl kvs (map JStr opts) index = Inr (Some q)"
      and "explanation q = map_of kvs (utf16 ''explanation'')"
      and "additionalSections q = Some (keys_loop kvs [] (remdups (map fst kvs)))"
    using te tr ne by auto
  with conv e(1) mem show ?thesis by auto
qed

theorem parseJSONQuestion_explanation_twice_witness:
  "\<exists>q. parseJSONQuestion ascii_table
          (JObj [(utf16 ''question'', JStr (utf16 ''Why?'')),
                 (utf16 ''options'', JArr [JStr (utf16 ''yes''), JStr (utf16 ''no'')]),
                 (utf16 ''explanation'', JStr (utf16 ''Because.''))]) 0 = Inr (Some q) \<and>
       explanation q = Some (JStr (utf16 ''Because.'')) \<and>
       additionalSections q = Some [\<lparr>title = utf16 ''Explanation'', content = utf16 ''Because.''\<rparr>]"
proof -
  let ?kvs = "[(utf16 ''question'', JStr (utf16 ''Why?'')),
               (utf16 ''options'', JArr [JStr (utf16 ''yes''), JStr (utf16 ''no'')]),
               (utf16 ''explanation'', JStr (utf16 ''Because.''))]"
  have h1: "truthy (map_of ?kvs (utf16 ''question''))"
    by (simp add: truthy_def utf16_def)
  have h2: "map_of ?kvs (utf16 ''options'') = Some (JArr (map JStr [utf16 ''yes'', utf16 ''no'']))"
    by (simp add: utf16_def)
  have h3: "map_of ?kvs (utf16 ''correct_answer'') = None
            \<or> map_of ?kvs (utf16 ''correct_answer'') = Some (JStr [])"
    by (simp add: utf16_def)
  have h4: "map_of ?kvs (utf16 ''explanation'') = Some (JStr (utf16 ''Because.''))"
    by (simp add: utf16_def)
  have h5: "trim (utf16 ''Because.'') \<noteq> []"
    by (simp add: utf16_def trim_def char_defs)
  have h6: "map_of ?kvs (utf16 ''reasoning'') = None"
    by (simp add: utf16_def)
  from parseJSONQuestion_explanation_twice [OF h1 h2 h3 h4 h5 h6, of ascii_table 0] obtain q secs
    where q: "parseJSONQuestion ascii_table (JObj ?kvs) 0 = Inr (Some q)"
      and ex: "explanation q = Some (JStr (utf16 ''Because.''))"
      and secs: "additionalSections q = Some secs"
    by blast
  have "parseJSONQuestion ascii_table (JObj ?kvs) 0 = convert_item ascii_table ?kvs (map JStr [utf16 ''yes'', utf16 ''no'']) 0"
    using h1 h2 by (rule parseJSONQuestion_shape_ok)
  with q have "additionalSections q =
      Some [\<lparr>title = utf16 ''Explanation'', content = utf16 ''Because.''\<rparr>]"
    by (auto simp: convert_item_def Let_def utf16_def excluded_key_def section_title_def trim_def
        remove_glyph_def has_glyph_option_def resolve_correct_answer_def truthy_def char_defs
        split: sum.splits prod.splits if_splits)
  with q ex show ?thesis by blast
qed



section \<open>The JSON extractor: an array of items\<close>

text \<open>
  Where every element of the array is typed as the interface grammar has it (none is null,
  options are strings, \<^verbatim>\<open>correct_answer\<close> is absent, falsy or a string), the extractor
  returns the conversions, each under the element's own position, of exactly the elements
  that pass the minimal shape check, in their original order. An array of three objects of
  which the second has no \<^verbatim>\<open>options\<close> yields the questions of the first and the third.
\<close>

lemma parseJSONFormat_array_of_typed:
  assumes "\<forall>x \<in> set items. item_typed x"
  shows "\<exists>qs. parseJSONFormat tbl (JArr items) = Inr qs \<and>
           length qs = length (filter shape_ok items) \<and>
           map (\<lambda>q. Inr (Some q)) qs =
             map (\<lambda>(i, x). parseJSONQuestion tbl x i)
               (filter (\<lambda>(i, x). shape_ok x) (enumerate 0 items))"
proof -
  from items_loop_typed [OF assms, of tbl 0 "[]"]
  obtain qs where loop: "items_loop tbl items 0 [] = Inr qs"
    and conv: "map (\<lambda>q. Inr (Some q)) qs =
             map (\<lambda>(i, x). parseJSONQuestion tbl x i)
               (filter (\<lambda>(i, x). shape_ok x) (enumerate 0 items))"
    by auto
  from conv have "length (map (\<lambda>q. Inr (Some q) :: error + MCQQuestion option) qs) =
      length (map (\<lambda>(i, x). parseJSONQuestion tbl x i)
               (filter (\<lambda>(i, x). shape_ok x) (enumerate 0 items)))"
    by simp
  then have len: "length qs = length (filter shape_ok items)"
    by (simp add: length_filter_enumerate)
  have "parseJSONFormat tbl (JArr items) = items_loop tbl items 0 []"
    by (simp add: parseJSONFormat_def get_prop_def truthy_def)
  with loop len conv show ?thesis by auto
qed

lemma parseJSONFormat_three_objects:
  "\<exists>qs. parseJSONFormat tbl
           (JArr [JObj [(utf16 ''question'', JStr (utf16 ''Q1'')),
                        (utf16 ''options'', JArr [JStr (utf16 ''x''), JStr (utf16 ''y'')])],
                  JObj [(utf16 ''question'', JStr (utf16 ''Q2''))],
                  JObj [(utf16 ''question'', JStr (utf16 ''Q3'')),
                        (utf16 ''options'', JArr [JStr (utf16 ''u''), JStr (utf16 ''v'')])]])
          = Inr qs \<and>
        length qs = 2 \<and>
        map question qs = [JStr (utf16 ''Q1''), JStr (utf16 ''Q3'')] \<and>
        map id_str qs = [utf16 ''q-0'', utf16 ''q-2'']"
proof -
  let ?a = "JObj [(utf16 ''question'', JStr (utf16 ''Q1'')),
                  (utf16 ''options'', JArr [JStr (utf16 ''x''), JStr (utf16 ''y'')])]"
  let ?b = "JObj [(utf16 ''question'', JStr (utf16 ''Q2''))]"
  let ?c = "JObj [(utf16 ''question'', JStr (utf16 ''Q3'')),
                  (utf16 ''options'', JArr [JStr (utf16 ''u''), JStr (utf16 ''v'')])]"
  have typed: "\<forall>x \<in> set [?a, ?b, ?c]. item_typed x"
    by (simp add: item_typed_def is_string_def utf16_def)
  have ok: "shape_ok ?a" "\<not> shape_ok ?b" "shape_ok ?c"
    by (simp_all add: shape_ok_def truthy_def isArray_def utf16_def)
  from parseJSONFormat_array_of_typed [OF typed, of tbl] obtain qs
    where r: "parseJSONFormat tbl (JArr [?a, ?b, ?c]) = Inr qs"
      and len: "length qs = length (filter shape_ok [?a, ?b, ?c])"
      and conv: "map (\<lambda>q. Inr (Some q)) qs =
             map (\<lambda>(i, x). parseJSONQuestion tbl x i)
               (filter (\<lambda>(i, x). shape_ok x) (enumerate 0 [?a, ?b, ?c]))"
    by blast
  from len ok have len2: "length qs = 2" by simp
  from conv ok have "map (\<lambda>q. Inr (Some q)) qs = [parseJSONQuestion tbl ?a 0, parseJSONQuestion tbl ?c 2]"
    by (simp add: numeral_2_eq_2)
  then obtain q1 q2 where qs: "qs = [q1, q2]"
    and q1: "parseJSONQuestion tbl ?a 0 = Inr (Some q1)"
    and q2: "parseJSONQuestion tbl ?c 2 = Inr (Some q2)"
    by auto
  from q1 have f1: "question q1 = JStr (utf16 ''Q1'')" "id_str q1 = utf16 ''q-0''"
    by (auto simp: json_defs char_defs show_nat.simps)
  from q2 have f2: "question q2 = JStr (utf16 ''Q3'')" "id_str q2 = utf16 ''q-2''"
    by (auto simp: json_defs char_defs show_nat.simps)
  from r len2 qs f1 f2 show ?thesis by simp
qed

text \<open>
  An element that passes the shape check and holds an option that is no string makes the call
  throw, and the questions of the other elements are lost with it.
\<close>

lemma parseJSONFormat_non_string_option_throws:
  "parseJSONFormat tbl
     (JArr [JObj [(utf16 ''question'', JStr (utf16 ''Q1'')),
                  (utf16 ''options'', JArr [JStr (utf16 ''x''), JStr (utf16 ''y'')])],
            JObj [(utf16 ''question'', JStr (utf16 ''Q2'')),
                  (utf16 ''options'', JArr [JNum 1, JNum 2])],
            JObj [(utf16 ''question'', JStr (utf16 ''Q3'')),
                  (utf16 ''options'', JArr [JStr (utf16 ''u''), JStr (utf16 ''v'')])]])
   = Inl TypeError"
  by (simp add: json_defs char_defs)

text \<open>
  Claim C6 says that each element of an array is converted independently and that an element
  failing the minimal shape check (a truthy \<^verbatim>\<open>question\<close> and \<^verbatim>\<open>options\<close> as an
  array) is skipped without an error, so that of three elements of which one has no
  \<^verbatim>\<open>options\<close> array two questions remain. The element null has neither field and fails the
  check, but the check itself, \<^verbatim>\<open>!item.question\<close>, reads a property of null and throws:
  on the array below the code returns no question at all, where the claim gives the two
  questions of the first and the third element.
\<close>

theorem parseJSONFormat_null_element_throws:
  "parseJSONFormat tbl
     (JArr [JObj [(utf16 ''question'', JStr (utf16 ''Q1'')),
                  (utf16 ''options'', JArr [JStr (utf16 ''x''), JStr (utf16 ''y'')])],
            JNull,
            JObj [(utf16 ''question'', JStr (utf16 ''Q3'')),
                  (utf16 ''options'', JArr [JStr (utf16 ''u''), JStr (utf16 ''v'')])]])
   = Inl TypeError \<and> \<not> shape_ok JNull"
  by (simp add: json_defs char_defs shape_ok_def)



section \<open>The JSON extractor: values of other shapes\<close>

text \<open>
  The shape check does what the specification says on every value but null: a value that is
  not null and has none of the three recognised shapes (a number, a string, a boolean, an
  object of another shape) gives the empty sequence, and a value that is not null and whose
  candidate items are typed as the interface grammar has them gives a sequence.
\<close>

lemma parseJSONFormat_total_when_typed:
  "(data \<noteq> JNull \<and> \<not> recognised data \<longrightarrow> parseJSONFormat tbl data = Inr [])
   \<and> (input_typed data \<longrightarrow> (\<exists>qs. parseJSONFormat tbl data = Inr qs))"
proof (intro conjI impI)
  assume a: "data \<noteq> JNull \<and> \<not> recognised data"
  then have ns: "\<not> shape_ok data" by (simp add: recognised_def)
  show "parseJSONFormat tbl data = Inr []"
  proof (cases data)
    case (JObj kvs)
    with a have nq: "\<not> isArray (map_of kvs (utf16 ''questions''))" by (simp add: recognised_def)
    from a ns have "parseJSONQuestion tbl data 0 = Inr None"
      by (simp add: parseJSONQuestion_not_shape_ok)
    with JObj nq show ?thesis
      by (auto simp: parseJSONFormat_def get_prop_def isArray_def split: option.splits json.splits)
  qed (use a in \<open>auto simp: recognised_def parseJSONFormat_def get_prop_def truthy_def\<close>)
next
  assume t: "input_typed data"
  show "\<exists>qs. parseJSONFormat tbl data = Inr qs"
  proof (cases data)
    case JNull
    with t show ?thesis by (simp add: input_typed_def)
  next
    case (JArr items)
    with t have "\<forall>x \<in> set items. item_typed x" by (simp add: input_typed_def list_all_iff)
    from items_loop_typed [OF this, of tbl 0 "[]"] JArr show ?thesis
      by (auto simp: parseJSONFormat_def get_prop_def truthy_def)
  next
    case (JObj kvs)
    with t have it: "item_typed data" by (simp add: input_typed_def)
    show ?thesis
    proof (cases "shape_ok data")
      case True
      from parseJSONQuestion_typed [OF it True, of tbl 0] show ?thesis
        by (auto simp: parseJSONFormat_single [OF True])
    next
      case False
      with JObj have q0: "parseJSONQuestion tbl data 0 = Inr None"
        by (simp add: parseJSONQuestion_not_shape_ok)
      show ?thesis
      proof (cases "map_of kvs (utf16 ''questions'')")
        case None
        with JObj q0 show ?thesis
          by (auto simp: parseJSONFormat_def get_prop_def)
      next
        case (Some v)
        show ?thesis
        proof (cases v)
          case (JArr items)
          with t JObj Some have "\<forall>x \<in> set items. item_typed x"
            by (simp add: input_typed_def list_all_iff)
          from items_loop_typed [OF this, of tbl 0 "[]"] JObj Some JArr q0 show ?thesis
            by (auto simp: parseJSONFormat_def get_prop_def)
        qed (use JObj Some q0 in \<open>auto simp: parseJSONFormat_def get_prop_def\<close>)
      qed
    qed
  qed (auto simp: parseJSONFormat_def get_prop_def truthy_def)
qed

lemma parseJSONFormat_other_shapes:
  "parseJSONFormat tbl (JNum 5) = Inr []"
  "parseJSONFormat tbl (JStr (utf16 ''x'')) = Inr []"
  "parseJSONFormat tbl (JBool True) = Inr []"
  "parseJSONFormat tbl (JObj []) = Inr []"
  "parseJSONFormat tbl (JObj [(utf16 ''name'', JStr (utf16 ''x''))]) = Inr []"
  by (simp_all add: json_defs)

text \<open>
  Claim C4 says that the extractor, applied to any decoded JSON value, null included, never
  throws and returns an empty sequence on a shape mismatch. On null the first condition of
  the shape check, \<^verbatim>\<open>data.question && data.options\<close>, reads a property of null: the
  extractor throws a TypeError where the claim gives the empty sequence.
\<close>

theorem parseJSONFormat_null_throws: "parseJSONFormat tbl JNull = Inl TypeError"
  by (simp add: parseJSONFormat_def get_prop_def)



section \<open>The line-pattern parser: a question without options\<close>

text \<open>
  The structured-header parser keeps the invariant of the data model: a block yields a question
  only under \<^verbatim>\<open>options.length > 0\<close>, and every assignment to \<^verbatim>\<open>correctAnswer\<close> is a
  position found in the options collected so far.
\<close>

lemma plain_line_index:
  assumes "b_correctAnswer st = 0 \<or> b_correctAnswer st < length (b_options st)"
  shows "b_correctAnswer (plain_line tbl st line) = 0
         \<or> b_correctAnswer (plain_line tbl st line) < length (b_options (plain_line tbl st line))"
  using assms resolve_answer_fields [of tbl st "trim (remove_bold line)"]
  by (auto simp: plain_line_def Let_def)

lemma process_line_index:
  assumes "b_correctAnswer st = 0 \<or> b_correctAnswer st < length (b_options st)"
  shows "b_correctAnswer (process_line tbl st line) = 0
         \<or> b_correctAnswer (process_line tbl st line) < length (b_options (process_line tbl st line))"
proof -
  have r: "b_correctAnswer (resolve_answer tbl (st\<lparr>currentSection := InAnswer\<rparr>) a) = 0
        \<or> b_correctAnswer (resolve_answer tbl (st\<lparr>currentSection := InAnswer\<rparr>) a)
            < length (b_options (resolve_answer tbl (st\<lparr>currentSection := InAnswer\<rparr>) a))" for a
    using assms resolve_answer_fields [of tbl "st\<lparr>currentSection := InAnswer\<rparr>" a] by auto
  show ?thesis
    using assms r plain_line_index [OF assms, of tbl line]
    by (auto simp: process_line_def Let_def flush_section_fields split: option.splits)
qed

lemma process_lines_index:
  "b_correctAnswer st = 0 \<or> b_correctAnswer st < length (b_options st) \<Longrightarrow>
     b_correctAnswer (process_lines tbl st lines) = 0
     \<or> b_correctAnswer (process_lines tbl st lines) < length (b_options (process_lines tbl st lines))"
proof (induction lines arbitrary: st)
  case Nil
  then show ?case by simp
next
  case (Cons line lines)
  from Cons.IH [OF process_line_index [OF Cons.prems]] show ?case by simp
qed

lemma parse_block_index:
  assumes "parse_block tbl block index = Some q"
  shows "1 \<le> length (options q) \<and> correctAnswer q < length (options q)"
proof -
  let ?st = "process_lines tbl initial_block_state (block_lines block)"
  have "b_correctAnswer ?st = 0 \<or> b_correctAnswer ?st < length (b_options ?st)"
    by (rule process_lines_index) (simp add: initial_block_state_def)
  with assms show ?thesis
    by (auto simp: parse_block_def Let_def flush_section_fields Suc_le_eq split: if_splits)
qed

lemma blocks_loop_index:
  assumes "\<forall>q \<in> set questions. 1 \<le> length (options q) \<and> correctAnswer q < length (options q)"
  shows "\<forall>q \<in> set (blocks_loop tbl blocks index questions).
           1 \<le> length (options q) \<and> correctAnswer q < length (options q)"
  using assms
proof (induction blocks arbitrary: index questions)
  case Nil
  then show ?case by simp
next
  case (Cons block blocks)
  show ?case
  proof (cases "parse_block tbl block index")
    case None
    with Cons.IH [OF Cons.prems] show ?thesis by simp
  next
    case (Some q)
    from parse_block_index [OF Some] Cons.prems
    have "\<forall>r \<in> set (questions @ [q]). 1 \<le> length (options r) \<and> correctAnswer r < length (options r)"
      by auto
    from Cons.IH [OF this] Some show ?thesis by simp
  qed
qed

lemma parseStructuredFormat_index:
  "\<forall>q \<in> set (parseStructuredFormat tbl text).
     1 \<le> length (options q) \<and> correctAnswer q < length (options q)"
  unfolding parseStructuredFormat_def by (rule blocks_loop_index) simp

text \<open>
  The other two parsers do not keep it in all cases. The JSON extractor accepts an item whose
  \<^verbatim>\<open>options\<close> is the empty array, and the line-pattern parser stores the index it reads
  from an answer line without comparing it with the number of options.
\<close>

lemma parseJSONFormat_empty_options:
  "parseJSONFormat tbl (JObj [(utf16 ''question'', JStr (utf16 ''Q'')), (utf16 ''options'', JArr [])]) =
     Inr [\<lparr>id_str = utf16 ''q-0'', question = JStr (utf16 ''Q''), options = [],
            correctAnswer = 0, explanation = None, additionalSections = None\<rparr>]"
  by (simp add: json_defs show_nat.simps)

lemma parseMCQText_index_past_options:
  "parseMCQText tbl now (utf16 ''1. Pick\<newline>A. x\<newline>B. y\<newline>Correct: A'') =
     [\<lparr>id_str = utf16 ''q-'' @ show_nat now, question = JStr (utf16 ''Pick''),
       options = [utf16 ''x'', utf16 ''y''], correctAnswer = 2,
       explanation = None, additionalSections = None\<rparr>]"
  by (simp add: text_defs re_defs char_defs)

text \<open>
  Claim C1 says that every question the parser returns has at least one option and a
  \<^verbatim>\<open>correctAnswer\<close> below the number of options. On the one-line text
  \<^verbatim>\<open>1. What is 2+2?\<close> the structured-header parser finds no block, and the line-pattern
  parser returns one question whose options are empty: the test
  \<^verbatim>\<open>currentQuestion.question && currentQuestion.options\<close> holds for the empty array, which
  is truthy. Its \<^verbatim>\<open>correctAnswer\<close> 0 is then no index into the options.
\<close>

theorem parseMCQText_question_without_options:
  "parseMCQText tbl now (utf16 ''1. What is 2+2?'') =
     [\<lparr>id_str = utf16 ''q-'' @ show_nat now, question = JStr (utf16 ''What is 2+2?''),
       options = [], correctAnswer = 0, explanation = None, additionalSections = None\<rparr>]"
  by (simp add: text_defs re_defs char_defs)



section \<open>The line-pattern parser: the answer line\<close>

text \<open>
  On every line that the answer pattern matches, the first letter of the class A to D is the
  first code unit of the line: the index stored is 0 for \<^verbatim>\<open>Answer\<close> and \<^verbatim>\<open>Ans\<close> and 2
  for \<^verbatim>\<open>Correct\<close>, whatever letter follows the colon.
\<close>

lemma answer_line_first_letter:
  assumes "answer_re accept line \<noteq> None"
  shows "\<exists>c rest. line = c # rest \<and> find is_AD line = Some c
           \<and> (letter_index c = 0 \<or> letter_index c = 2)"
proof (cases line)
  case Nil
  with assms show ?thesis by (simp add: answer_re_def alt_def utf16_def)
next
  case (Cons c rest)
  with assms have "upper_cu c = 65 \<or> upper_cu c = 67"
    by (auto simp: answer_re_def alt_def utf16_def upper_cu_def split: option.splits if_splits)
  then have "is_AD c \<and> (letter_index c = 0 \<or> letter_index c = 2)"
    by (auto simp: upper_cu_def is_AD_def letter_index_def split: if_splits)
  with Cons show ?thesis by simp
qed

text \<open>
  Claim C2 says that the five lines \<^verbatim>\<open>1. What is 2+2?\<close>, \<^verbatim>\<open>A. 3\<close>, \<^verbatim>\<open>B. 4\<close>,
  \<^verbatim>\<open>C. 5\<close>, \<^verbatim>\<open>Answer: B\<close> yield one question with the options 3, 4, 5 and
  \<^verbatim>\<open>correctAnswer\<close> 1. The code returns that question with \<^verbatim>\<open>correctAnswer\<close> 0:
  \<^verbatim>\<open>line.match(/[A-Da-d]/)\<close> finds the first letter of the class in the whole line, which
  is the \<^verbatim>\<open>A\<close> of \<^verbatim>\<open>Answer\<close>, not the letter after the colon.
\<close>

theorem parseMCQText_answer_line_first_letter:
  "parseMCQText tbl now (utf16 ''1. What is 2+2?\<newline>A. 3\<newline>B. 4\<newline>C. 5\<newline>Answer: B'') =
     [\<lparr>id_str = utf16 ''q-'' @ show_nat now, question = JStr (utf16 ''What is 2+2?''),
       options = [utf16 ''3'', utf16 ''4'', utf16 ''5''], correctAnswer = 0,
       explanation = None, additionalSections = None\<rparr>]"
  by (simp add: text_defs re_defs char_defs)



section \<open>The structured-header parser: a custom section before another label\<close>

text \<open>
  A custom section that is followed by the Options label is kept; one that is followed by the
  Correct-Answer label is lost like the one before the Reasoning label below.
\<close>

lemma parseStructuredFormat_section_kept_before_options:
  "parseStructuredFormat tbl
     (utf16 ''**Question:** What?\<newline>Custom Section:----\<newline>body\<newline>**Options:**\<newline>- a'') =
     [\<lparr>id_str = utf16 ''q-0'', question = JStr (utf16 ''What?''),
       options = [utf16 ''a''], correctAnswer = 0,
       explanation = None,
       additionalSections = Some [\<lparr>title = utf16 ''Custom Section'', content = utf16 ''body''\<rparr>]\<rparr>]"
  by (simp add: text_defs re_defs char_defs show_nat.simps)

lemma parseStructuredFormat_section_lost_before_answer:
  "parseStructuredFormat tbl
     (utf16 ''**Question:** What?\<newline>**Options:**\<newline>- a\<newline>Custom Section:----\<newline>body\<newline>**Correct Answer:** a'') =
     [\<lparr>id_str = utf16 ''q-0'', question = JStr (utf16 ''What?''),
       options = [utf16 ''a''], correctAnswer = 0,
       explanation = None, additionalSections = None\<rparr>]"
  by (simp add: text_defs re_defs char_defs show_nat.simps)

text \<open>
  Claim C7 says that a custom section with a title and content is flushed into the question's
  additional sections whatever label follows it. In the block below the section
  \<^verbatim>\<open>Custom Section\<close> with the content \<^verbatim>\<open>body\<close> is followed by the Reasoning label:
  that branch (like the Correct-Answer and the Question branch) changes the current section
  without the flush that the Options and the custom-label branch do, and the flush at the
  end of the block asks for the current section to be the additional one. The question has
  no additional sections.
\<close>

theorem parseStructuredFormat_section_lost_before_reasoning:
  "parseStructuredFormat tbl
     (utf16 ''**Question:** What?\<newline>**Options:**\<newline>- a\<newline>Custom Section:----\<newline>body\<newline>**Reasoning:** because'') =
     [\<lparr>id_str = utf16 ''q-0'', question = JStr (utf16 ''What?''),
       options = [utf16 ''a''], correctAnswer = 0,
       explanation = Some (JStr (utf16 ''because'')), additionalSections = None\<rparr>]"
  by (simp add: text_defs re_defs char_defs show_nat.simps)



section \<open>The structured-header parser: glyph and Correct-Answer label\<close>

text \<open>
  Each branch of the block loop assigns the correct answer without looking at what set it
  before. A Correct-Answer label after the options, with its text on the same line or on the
  next one, replaces the position of the glyph-marked option; a label before the options
  finds no option yet and leaves the glyph in force.
\<close>

lemma parseStructuredFormat_label_overrides_glyph:
  "parseStructuredFormat tbl
     (utf16 ''**Question:** Capital?\<newline>**Options:**\<newline>- '' @ [CHECK_MARK] @
      utf16 '' Paris\<newline>- London\<newline>**Correct Answer:** London'') =
     [\<lparr>id_str = utf16 ''q-0'', question = JStr (utf16 ''Capital?''),
       options = [utf16 ''Paris'', utf16 ''London''], correctAnswer = 1,
       explanation = None, additionalSections = None\<rparr>]"
  by (simp add: text_defs re_defs char_defs show_nat.simps)

lemma parseStructuredFormat_next_line_answer_overrides_glyph:
  "parseStructuredFormat tbl
     (utf16 ''**Question:** Capital?\<newline>**Options:**\<newline>- '' @ [CHECK_MARK] @
      utf16 '' Paris\<newline>- London\<newline>**Correct Answer:**\<newline>London'') =
     [\<lparr>id_str = utf16 ''q-0'', question = JStr (utf16 ''Capital?''),
       options = [utf16 ''Paris'', utf16 ''London''], correctAnswer = 1,
       explanation = None, additionalSections = None\<rparr>]"
  by (simp add: text_defs re_defs char_defs show_nat.simps)

lemma parseStructuredFormat_glyph_after_label:
  "parseStructuredFormat tbl
     (utf16 ''**Question:** Capital?\<newline>**Correct Answer:** London\<newline>**Options:**\<newline>- '' @
      [CHECK_MARK] @ utf16 '' Paris\<newline>- London'') =
     [\<lparr>id_str = utf16 ''q-0'', question = JStr (utf16 ''Capital?''),
       options = [utf16 ''Paris'', utf16 ''London''], correctAnswer = 0,
       explanation = None, additionalSections = None\<rparr>]"
  by (simp add: text_defs re_defs char_defs show_nat.simps)

text \<open>
  The JSON extractor guards the same step with
  \<^verbatim>\<open>!item.options.some((opt) => opt.includes(glyph))\<close>: on the item that says what the
  block of the claim's theorem below says, it returns the position of the marked option.
\<close>

lemma parseJSONFormat_glyph_guard:
  "parseJSONFormat tbl
     (JObj [(utf16 ''question'', JStr (utf16 ''Capital?'')),
            (utf16 ''options'',
             JArr [JStr (utf16 ''Paris''), JStr (utf16 ''Paris, France '' @ [CHECK_MARK])]),
            (utf16 ''correct_answer'', JStr (utf16 ''Paris, France''))]) =
     Inr [\<lparr>id_str = utf16 ''q-0'', question = JStr (utf16 ''Capital?''),
            options = [utf16 ''Paris'', utf16 ''Paris, France''], correctAnswer = 1,
            explanation = None, additionalSections = None\<rparr>]"
  by (simp add: json_defs char_defs show_nat.simps)

text \<open>
  Claim C5 says that where a block holds an option line with the marker glyph and a
  Correct-Answer label whose text resolves, by the substring match in either direction, to
  another option, the position of the marked option is the final correct answer. In the block
  below the second option is marked and the label repeats its text, \<^verbatim>\<open>Paris, France\<close>. The
  first option, \<^verbatim>\<open>Paris\<close>, is contained in the label's text, so the match resolves to
  position 0, and the code returns 0, not the position 1 of the marked option.
\<close>

theorem parseStructuredFormat_label_match_beats_glyph:
  "parseStructuredFormat tbl
     (utf16 ''**Question:** Capital?\<newline>**Options:**\<newline>- Paris\<newline>- Paris, France '' @
      [CHECK_MARK] @ utf16 ''\<newline>**Correct Answer:** Paris, France'') =
     [\<lparr>id_str = utf16 ''q-0'', question = JStr (utf16 ''Capital?''),
       options = [utf16 ''Paris'', utf16 ''Paris, France''], correctAnswer = 0,
       explanation = None, additionalSections = None\<rparr>]"
  by (simp add: text_defs re_defs char_defs show_nat.simps)



section \<open>The text parser and the clock\<close>

text \<open>
  The line-pattern parser numbers its questions from \<^verbatim>\<open>Date.now()\<close>: two calls on the
  same text at different clock readings return different ids.
\<close>

theorem parseMCQText_ids_follow_clock:
  "parseMCQText ascii_table 0 (utf16 ''1. Q\<newline>A. x'') \<noteq> parseMCQText ascii_table 1 (utf16 ''1. Q\<newline>A. x'')"
  by (simp add: text_defs re_defs char_defs show_nat.simps)

text \<open>
  Claim C8, as the code has it. For every case table, two invocations of the text parser on the same raw text
  return sequences that are equal in everything but the ids: the same number of questions,
  with the same question text, options, correct answer, explanation and additional sections.
  Where the structured-header parser recognises the text, the ids are equal too; where it
  does not, the id of the i-th question is \<^verbatim>\<open>q-\<close> followed by the clock reading of the
  call plus i, so the ids of two calls agree exactly when their clock readings do.
\<close>

theorem parseMCQText_equal_up_to_ids:
  "map (\<lambda>q. q\<lparr>id_str := []\<rparr>) (parseMCQText tbl now1 text) =
     map (\<lambda>q. q\<lparr>id_str := []\<rparr>) (parseMCQText tbl now2 text)
   \<and> (parseStructuredFormat tbl text \<noteq> [] \<longrightarrow> parseMCQText tbl now1 text = parseMCQText tbl now2 text)
   \<and> (parseStructuredFormat tbl text = [] \<longrightarrow>
        map id_str (parseMCQText tbl now1 text) =
          map (\<lambda>i. utf16 ''q-'' @ show_nat (now1 + i)) [0..<length (parseMCQText tbl now1 text)])"
  using parseLinePattern_strip [of now1 "text" now2] parseLinePattern_ids [of now1 "text"]
  by (simp add: parseMCQText_def Let_def)

theorem parseMCQText_equal_up_to_ids_witness:
  "map (\<lambda>q. q\<lparr>id_str := []\<rparr>) (parseMCQText ascii_table 41 (utf16 ''1. Q\<newline>A. x'')) =
     map (\<lambda>q. q\<lparr>id_str := []\<rparr>) (parseMCQText ascii_table 42 (utf16 ''1. Q\<newline>A. x''))
   \<and> map id_str (parseMCQText ascii_table 41 (utf16 ''1. Q\<newline>A. x'')) = [utf16 ''q-41'']
   \<and> parseMCQText ascii_table 41 (utf16 ''**Question:** What?\<newline>**Options:**\<newline>- a'') =
       parseMCQText ascii_table 42 (utf16 ''**Question:** What?\<newline>**Options:**\<newline>- a'')"
proof -
  let ?t = "utf16 ''1. Q\<newline>A. x''"
  let ?s = "utf16 ''**Question:** What?\<newline>**Options:**\<newline>- a''"
  have none: "parseStructuredFormat ascii_table ?t = []"
    by (simp add: text_defs re_defs char_defs)
  have some: "parseStructuredFormat ascii_table ?s \<noteq> []"
    by (simp add: text_defs re_defs char_defs)
  have len: "length (parseMCQText ascii_table 41 ?t) = 1"
    by (simp add: text_defs re_defs char_defs)
  have "map id_str (parseMCQText ascii_table 41 ?t) =
      map (\<lambda>i. utf16 ''q-'' @ show_nat (41 + i)) [0..<length (parseMCQText ascii_table 41 ?t)]"
    using parseMCQText_equal_up_to_ids [of ascii_table 41 ?t 42] none by blast
  then have ids: "map id_str (parseMCQText ascii_table 41 ?t) = [utf16 ''q-41'']"
    unfolding len by (simp add: show_nat.simps utf16_def)
  from parseMCQText_equal_up_to_ids [of ascii_table 41 ?t 42] parseMCQText_equal_up_to_ids [of ascii_table 41 ?s 42]
    some ids show ?thesis by blast
qed

end
